theory Spec2Isabelle
  imports Main "HOL-Library.AList" "HOL-Library.Word"
begin

section \<open>Python values\<close>

text \<open>
  The scripts work on the values that \<^verbatim>\<open>json.load\<close> returns. A JSON object is a Python
  dict: its keys are distinct and keep their insertion order, so it is an association list
  here. \<^verbatim>\<open>d[k] = v\<close> is \<open>AList.update\<close> (an existing key keeps its place, a new key goes
  to the end), \<^verbatim>\<open>del d[k]\<close> is \<open>AList.delete\<close> and a lookup is \<open>map_of\<close>. JSON numbers with
  a fraction or an exponent (Python floats) are outside the model. An integer of a loaded
  value is one that \<^verbatim>\<open>json.load\<close> has read, so \<^verbatim>\<open>str\<close> prints it.
\<close>

datatype json =
    JNull
  | JBool bool
  | JInt int
  | JStr string
  | JArr "json list"
  | JObj "(string \<times> json) list"

type_synonym dict = "(string \<times> json) list"

text \<open>
  The exceptions the scripts can meet; a \<^verbatim>\<open>ValueError\<close> carries its message. The last two
  are raised by \<^verbatim>\<open>open\<close>.
\<close>

datatype py_error =
    AttributeError
  | TypeError
  | KeyError
  | ValueError string
  | FileNotFoundError
  | NotADirectoryError

text \<open>Python truthiness of a loaded value, as \<^verbatim>\<open>if x:\<close> and \<^verbatim>\<open>a and b\<close> test it.\<close>

fun truthy :: "json \<Rightarrow> bool" where
  "truthy JNull = False"
| "truthy (JBool b) = b"
| "truthy (JInt n) = (n \<noteq> 0)"
| "truthy (JStr s) = (s \<noteq> [])"
| "truthy (JArr xs) = (xs \<noteq> [])"
| "truthy (JObj kvs) = (kvs \<noteq> [])"

text \<open>\<^verbatim>\<open>s.startswith(p)\<close>.\<close>

fun startswith :: "string \<Rightarrow> string \<Rightarrow> bool" where
  "startswith s [] = True"
| "startswith [] (p # ps) = False"
| "startswith (c # cs) (p # ps) = (c = p \<and> startswith cs ps)"

text \<open>
  \<^verbatim>\<open>s.replace(old, new)\<close>: every occurrence of \<open>old\<close>, found from left to right without
  overlap, is replaced. With an empty \<open>old\<close> Python puts \<open>new\<close> before every character and
  at the end.
\<close>

function str_replace :: "string \<Rightarrow> string \<Rightarrow> string \<Rightarrow> string" where
  "str_replace old new s =
     (if old = [] then new @ concat (map (\<lambda>c. c # new) s)
      else if s = [] then []
      else if startswith s old then new @ str_replace old new (drop (length old) s)
      else hd s # str_replace old new (tl s))"
  by pat_completeness auto
termination
  by (relation "measure (\<lambda>(old, new, s). length s)") auto

declare str_replace.simps [simp del]

text \<open>\<^verbatim>\<open>p in s\<close> for two strings: \<open>p\<close> occurs in \<open>s\<close>.\<close>

definition contains :: "string \<Rightarrow> string \<Rightarrow> bool" where
  "contains s p = list_ex (\<lambda>i. startswith (drop i s) p) [0 ..< Suc (length s)]"

text \<open>\<^verbatim>\<open>sep.join(parts)\<close>.\<close>

fun join :: "string \<Rightarrow> string list \<Rightarrow> string" where
  "join sep [] = []"
| "join sep [x] = x"
| "join sep (x # y # ys) = x @ sep @ join sep (y # ys)"

text \<open>\<^verbatim>\<open>str(n)\<close> of an integer, in decimal.\<close>

definition digit_char :: "nat \<Rightarrow> char" where
  "digit_char n = ''0123456789'' ! n"

function str_nat :: "nat \<Rightarrow> string" where
  "str_nat n = (if n < 10 then [digit_char n] else str_nat (n div 10) @ [digit_char (n mod 10)])"
  by pat_completeness auto
termination
  by (relation "measure (\<lambda>n. n)") auto

declare str_nat.simps [simp del]

definition str_int :: "int \<Rightarrow> string" where
  "str_int i = (if i < 0 then CHR ''-'' # str_nat (nat (- i)) else str_nat (nat i))"

definition hex_digit :: "nat \<Rightarrow> char" where
  "hex_digit n = ''0123456789abcdef'' ! n"

definition hex_byte :: "8 word \<Rightarrow> string" where
  "hex_byte b = [hex_digit (unat b div 16), hex_digit (unat b mod 16)]"

section \<open>The outside world\<close>

text \<open>
  Everything the scripts reach outside their own memory is one record. The random sources
  and the answers of the two remote stores are oracles that the run cannot influence:
  \<open>urandom w k\<close> is the \<open>k\<close>-th byte the operating system's random source yields,
  \<open>uuid4_src w k\<close> the text of the \<open>k\<close>-th \<^verbatim>\<open>uuid.uuid4()\<close>, \<open>ssm_ok w k\<close> and \<open>ddb_ok w k\<close> tell
  whether the \<open>k\<close>-th \<^verbatim>\<open>put_parameter\<close> and the \<open>k\<close>-th \<^verbatim>\<open>put_item\<close> of the run succeed, and
  \<open>tables w name\<close> is the answer of \<^verbatim>\<open>describe_table\<close>. Two more oracles stand for the
  interpreter where its answer depends on the Python version and on its settings:
  \<open>repr_other w s\<close> is \<^verbatim>\<open>repr(s)\<close> for a string \<open>s\<close> that holds a character outside ASCII (the
  Unicode tables say what is printable), and \<open>int_other w s\<close> is \<^verbatim>\<open>int(s)\<close>, or the message of
  its \<^verbatim>\<open>ValueError\<close>, for a string that holds a character outside ASCII or is longer than
  640 characters (the Unicode tables say what is a digit, and the limit on the number of
  digits of a conversion, which is checked above 640 digits only, can be set). The rest is
  state: how much randomness has been used, every remote write that was attempted (with its
  outcome), and the files written to the dry-run output directory.
\<close>

datatype param_type = PString | PSecureString

text \<open>
  The \<^verbatim>\<open>Value\<close> of a parameter: \<open>Dumps v\<close> stands for the text
  \<^verbatim>\<open>json.dumps(v, separators=(',', ':'))\<close>, \<open>Raw v\<close> for the loaded value \<open>v\<close> passed as it is.
\<close>

datatype param_value = Dumps json | Raw json

record ssm_call =
  param_name :: string
  param_value :: param_value
  param_type :: param_type
  param_ok :: bool

record ddb_call =
  ddb_table :: string
  ddb_item :: json
  ddb_ok_result :: bool

datatype describe_result = TableExists | ResourceNotFound | DescribeFailed

record world =
  urandom :: "nat \<Rightarrow> 8 word"
  rand_pos :: nat
  uuid4_src :: "nat \<Rightarrow> string"
  uuid_pos :: nat
  ssm_reachable :: bool
  ssm_ok :: "nat \<Rightarrow> bool"
  ssm_calls :: "ssm_call list"
  tables :: "string \<Rightarrow> describe_result"
  ddb_ok :: "nat \<Rightarrow> bool"
  ddb_calls :: "ddb_call list"
  files :: "(string \<times> json) list"
  repr_other :: "string \<Rightarrow> string"
  int_other :: "string \<Rightarrow> string + int"

section \<open>Conversions to text\<close>

text \<open>
  The \<open>char\<close>s of a string are the bytes of its UTF-8 form; ASCII is the bytes below 128. A
  string with a lone surrogate has no such form and is outside the model, and so is what the
  scripts print.
\<close>

definition is_ascii :: "string \<Rightarrow> bool" where
  "is_ascii s = list_all (\<lambda>c. (of_char c :: nat) < 128) s"

text \<open>
  \<^verbatim>\<open>repr(s)\<close> of a string. For ASCII: single quotes unless the string holds a single quote
  and no double quote; the quote and the backslash are escaped, tab, newline and carriage
  return are written \<^verbatim>\<open>\t \n \r\<close>, other control characters \<^verbatim>\<open>\xhh\<close>. Which of the other
  characters are printable is for the interpreter's tables to say.
\<close>

definition repr_char :: "char \<Rightarrow> char \<Rightarrow> string" where
  "repr_char quote c =
     (if c = quote \<or> c = CHR 0x5C then [CHR 0x5C, c]
      else if c = CHR 0x09 then [CHR 0x5C, CHR ''t'']
      else if c = CHR 0x0A then [CHR 0x5C, CHR ''n'']
      else if c = CHR 0x0D then [CHR 0x5C, CHR ''r'']
      else if (of_char c :: nat) < 32 \<or> (of_char c :: nat) = 127
           then [CHR 0x5C, CHR ''x''] @ hex_byte (of_char c)
      else [c])"

definition repr_str :: "world \<Rightarrow> string \<Rightarrow> string" where
  "repr_str w s =
     (if is_ascii s
      then (let quote = (if CHR 0x27 \<in> set s \<and> CHR 0x22 \<notin> set s then CHR 0x22 else CHR 0x27)
            in quote # concat (map (repr_char quote) s) @ [quote])
      else repr_other w s)"

text \<open>\<^verbatim>\<open>repr(v)\<close> and \<^verbatim>\<open>str(v)\<close> of a loaded value; an f-string formats a value with \<^verbatim>\<open>str\<close>.\<close>

fun py_repr :: "world \<Rightarrow> json \<Rightarrow> string" where
  "py_repr w JNull = ''None''"
| "py_repr w (JBool b) = (if b then ''True'' else ''False'')"
| "py_repr w (JInt i) = str_int i"
| "py_repr w (JStr s) = repr_str w s"
| "py_repr w (JArr xs) = ''['' @ join '', '' (map (py_repr w) xs) @ '']''"
| "py_repr w (JObj kvs) =
     ''{'' @ join '', '' (map (\<lambda>kv. repr_str w (fst kv) @ '': '' @ py_repr w (snd kv)) kvs) @ ''}''"

definition py_str :: "world \<Rightarrow> json \<Rightarrow> string" where
  "py_str w v = (case v of JStr s \<Rightarrow> s | _ \<Rightarrow> py_repr w v)"

section \<open>client_config_maker.py\<close>

text \<open>\<^verbatim>\<open>secrets.token_hex(n)\<close>: \<open>n\<close> random bytes, two lower-case hex digits each.\<close>

definition token_hex :: "nat \<Rightarrow> world \<Rightarrow> string \<times> world" where
  "token_hex n w =
     (concat (map (\<lambda>k. hex_byte (urandom w k)) [rand_pos w ..< rand_pos w + n]),
      w\<lparr>rand_pos := rand_pos w + n\<rparr>)"

definition generate_random_hex :: "world \<Rightarrow> string \<times> world" where
  "generate_random_hex w = token_hex 8 w"

definition generate_config_id :: "string \<Rightarrow> string \<Rightarrow> world \<Rightarrow> string \<times> world" where
  "generate_config_id client_tag label w =
     (let (random_hex, w1) = generate_random_hex w
      in (client_tag @ ''-'' @ label @ ''-'' @ random_hex, w1))"

text \<open>
  \<^verbatim>\<open>create_ssm_parameter\<close>: the call is logged with its outcome, and an exception of
  \<^verbatim>\<open>put_parameter\<close> becomes the result \<open>False\<close>.
\<close>

definition create_ssm_parameter ::
    "string \<Rightarrow> param_value \<Rightarrow> param_type \<Rightarrow> world \<Rightarrow> bool \<times> world" where
  "create_ssm_parameter name v ptype w =
     (let ok = ssm_ok w (length (ssm_calls w))
      in (ok, w\<lparr>ssm_calls := ssm_calls w @
                  [\<lparr>param_name = name, param_value = v, param_type = ptype, param_ok = ok\<rparr>]\<rparr>))"

definition secret_path :: "string \<Rightarrow> string \<Rightarrow> string \<Rightarrow> string" where
  "secret_path client_id env_id secret_name =
     ''/spec/enrichment/clients/'' @ client_id @ ''/envs/'' @ env_id @ ''/secrets/'' @ secret_name"

text \<open>
  One round of \<^verbatim>\<open>for field in ["password", "client_secret"]\<close>. A truthy value that is not a
  string has no \<^verbatim>\<open>startswith\<close>.
\<close>

definition update_secret_field :: "string \<Rightarrow> string \<Rightarrow> string \<Rightarrow> dict \<Rightarrow> py_error + dict" where
  "update_secret_field client_id env_id field connection =
     (case map_of connection field of
        None \<Rightarrow> Inr connection
      | Some v \<Rightarrow>
          if \<not> truthy v then Inr connection
          else (case v of
                  JStr s \<Rightarrow>
                    if startswith s ''secret.''
                    then let secret_name = str_replace ''secret.'' '''' s
                         in Inr (AList.update field
                                   (JStr (secret_path client_id env_id secret_name)) connection)
                    else Inr connection
                | _ \<Rightarrow> Inl AttributeError))"

definition update_secret_refs :: "string \<Rightarrow> string \<Rightarrow> dict \<Rightarrow> py_error + dict" where
  "update_secret_refs client_id env_id connection =
     (case update_secret_field client_id env_id ''password'' connection of
        Inl e \<Rightarrow> Inl e
      | Inr c \<Rightarrow> update_secret_field client_id env_id ''client_secret'' c)"

text \<open>
  The body of \<^verbatim>\<open>for conn_key in connection_keys\<close> for one connection: the identifier is
  generated first, then \<^verbatim>\<open>connection["id"] = new_id\<close> needs a dict.
\<close>

definition connection_step ::
    "string \<Rightarrow> string \<Rightarrow> string \<Rightarrow> json \<Rightarrow> world \<Rightarrow> (py_error + string \<times> dict) \<times> world" where
  "connection_step client_tag client_id env_id conn w =
     (let (new_id, w1) = generate_config_id client_tag ''con'' w
      in case conn of
           JObj c \<Rightarrow>
             (case update_secret_refs client_id env_id (AList.update ''id'' (JStr new_id) c) of
                Inl e \<Rightarrow> (Inl e, w1)
              | Inr c' \<Rightarrow> (Inr (new_id, c'), w1))
         | _ \<Rightarrow> (Inl TypeError, w1))"

text \<open>
  The loop over the connections, with \<^verbatim>\<open>new_connections\<close> and
  \<^verbatim>\<open>connection_key_to_id_map\<close> as accumulators. The keys of a dict are distinct, so going
  through the keys and reading each entry is going through the items.
\<close>

fun connections_loop ::
    "string \<Rightarrow> string \<Rightarrow> string \<Rightarrow> (string \<times> json) list \<Rightarrow> dict \<Rightarrow> (string \<times> string) list \<Rightarrow>
     world \<Rightarrow> (py_error + dict \<times> (string \<times> string) list) \<times> world" where
  "connections_loop client_tag client_id env_id [] new_connections key_map w =
     (Inr (new_connections, key_map), w)"
| "connections_loop client_tag client_id env_id ((conn_key, conn) # rest) new_connections key_map w =
     (case connection_step client_tag client_id env_id conn w of
        (Inl e, w1) \<Rightarrow> (Inl e, w1)
      | (Inr (new_id, c'), w1) \<Rightarrow>
          connections_loop client_tag client_id env_id rest
            (AList.update new_id (JObj c') new_connections)
            (AList.update conn_key new_id key_map) w1)"

text \<open>\<^verbatim>\<open>if "connections" in config and config["connections"]\<close> and what it guards.\<close>

definition update_connections ::
    "dict \<Rightarrow> string \<Rightarrow> string \<Rightarrow> string \<Rightarrow> world \<Rightarrow>
     (py_error + dict \<times> (string \<times> string) list) \<times> world" where
  "update_connections config client_tag client_id env_id w =
     (case map_of config ''connections'' of
        None \<Rightarrow> (Inr (config, []), w)
      | Some v \<Rightarrow>
          if \<not> truthy v then (Inr (config, []), w)
          else (case v of
                  JObj conns \<Rightarrow>
                    (case connections_loop client_tag client_id env_id conns [] [] w of
                       (Inl e, w1) \<Rightarrow> (Inl e, w1)
                     | (Inr (new_connections, key_map), w1) \<Rightarrow>
                         (Inr (AList.update ''connections'' (JObj new_connections) config, key_map),
                          w1))
                | _ \<Rightarrow> (Inl AttributeError, w)))"

text \<open>\<^verbatim>\<open>x in some_dict\<close> hashes \<open>x\<close>: a list or a dict is unhashable.\<close>

fun hashable :: "json \<Rightarrow> bool" where
  "hashable (JArr xs) = False"
| "hashable (JObj kvs) = False"
| "hashable v = True"

text \<open>
  \<^verbatim>\<open>for conn_type in conn_types\<close>: a value that is a key of \<^verbatim>\<open>connection_key_to_id_map\<close> is
  replaced by the identifier, any other hashable value stays.
\<close>

definition resolve_conn_ref :: "(string \<times> string) list \<Rightarrow> json \<Rightarrow> json" where
  "resolve_conn_ref key_map original_conn_key =
     (case original_conn_key of
        JStr k \<Rightarrow> (case map_of key_map k of Some i \<Rightarrow> JStr i | None \<Rightarrow> original_conn_key)
      | _ \<Rightarrow> original_conn_key)"

fun update_conn_refs :: "(string \<times> string) list \<Rightarrow> dict \<Rightarrow> py_error + dict" where
  "update_conn_refs key_map [] = Inr []"
| "update_conn_refs key_map ((conn_type, original_conn_key) # rest) =
     (if \<not> hashable original_conn_key then Inl TypeError
      else case update_conn_refs key_map rest of
             Inl e \<Rightarrow> Inl e
           | Inr rest' \<Rightarrow> Inr ((conn_type, resolve_conn_ref key_map original_conn_key) # rest'))"

text \<open>The body of \<^verbatim>\<open>for pipe_key in pipeline_keys\<close> for one pipeline.\<close>

definition pipeline_step ::
    "string \<Rightarrow> (string \<times> string) list \<Rightarrow> json \<Rightarrow> world \<Rightarrow> (py_error + string \<times> dict) \<times> world" where
  "pipeline_step client_tag key_map pipe w =
     (let (new_id, w1) = generate_config_id client_tag ''pipe'' w
      in case pipe of
           JObj p \<Rightarrow>
             (let p1 = AList.update ''id'' (JStr new_id) p
              in case map_of p1 ''connections'' of
                   None \<Rightarrow> (Inr (new_id, p1), w1)
                 | Some v \<Rightarrow>
                     if \<not> truthy v then (Inr (new_id, p1), w1)
                     else (case v of
                             JObj pcs \<Rightarrow>
                               (case update_conn_refs key_map pcs of
                                  Inl e \<Rightarrow> (Inl e, w1)
                                | Inr pcs' \<Rightarrow>
                                    (Inr (new_id, AList.update ''connections'' (JObj pcs') p1), w1))
                           | _ \<Rightarrow> (Inl AttributeError, w1)))
         | _ \<Rightarrow> (Inl TypeError, w1))"

fun pipelines_loop ::
    "string \<Rightarrow> (string \<times> string) list \<Rightarrow> (string \<times> json) list \<Rightarrow> dict \<Rightarrow> string list \<Rightarrow>
     (string \<times> string) list \<Rightarrow> world \<Rightarrow>
     (py_error + dict \<times> string list \<times> (string \<times> string) list) \<times> world" where
  "pipelines_loop client_tag key_map [] new_pipelines pipeline_ids pipe_map w =
     (Inr (new_pipelines, pipeline_ids, pipe_map), w)"
| "pipelines_loop client_tag key_map ((pipe_key, pipe) # rest) new_pipelines pipeline_ids pipe_map w =
     (case pipeline_step client_tag key_map pipe w of
        (Inl e, w1) \<Rightarrow> (Inl e, w1)
      | (Inr (new_id, p'), w1) \<Rightarrow>
          pipelines_loop client_tag key_map rest
            (AList.update new_id (JObj p') new_pipelines)
            (pipeline_ids @ [new_id])
            (AList.update pipe_key new_id pipe_map) w1)"

definition update_pipelines ::
    "dict \<Rightarrow> string \<Rightarrow> (string \<times> string) list \<Rightarrow> world \<Rightarrow>
     (py_error + dict \<times> string list \<times> (string \<times> string) list) \<times> world" where
  "update_pipelines config client_tag key_map w =
     (case map_of config ''pipelines'' of
        None \<Rightarrow> (Inr (config, [], []), w)
      | Some v \<Rightarrow>
          if \<not> truthy v then (Inr (config, [], []), w)
          else (case v of
                  JObj pipes \<Rightarrow>
                    (case pipelines_loop client_tag key_map pipes [] [] [] w of
                       (Inl e, w1) \<Rightarrow> (Inl e, w1)
                     | (Inr (new_pipelines, pipeline_ids, pipe_map), w1) \<Rightarrow>
                         (Inr (AList.update ''pipelines'' (JObj new_pipelines) config,
                               pipeline_ids, pipe_map), w1))
                | _ \<Rightarrow> (Inl AttributeError, w)))"

text \<open>
  \<^verbatim>\<open>update_config_ids(config, client_tag, client_id, env_id)\<close>: connections first, then
  pipelines; the result is \<^verbatim>\<open>(config, pipeline_ids, pipeline_key_to_id_map)\<close>.
\<close>

definition update_config_ids ::
    "dict \<Rightarrow> string \<Rightarrow> string \<Rightarrow> string \<Rightarrow> world \<Rightarrow>
     (py_error + dict \<times> string list \<times> (string \<times> string) list) \<times> world" where
  "update_config_ids config client_tag client_id env_id w =
     (case update_connections config client_tag client_id env_id w of
        (Inl e, w1) \<Rightarrow> (Inl e, w1)
      | (Inr (config1, connection_key_to_id_map), w1) \<Rightarrow>
          update_pipelines config1 client_tag connection_key_to_id_map w1)"

text \<open>
  The input directory: whether it exists, and for each file whether it is there and
  whether it is JSON text (\<open>BadJson\<close>: \<^verbatim>\<open>json.load\<close> raises \<^verbatim>\<open>JSONDecodeError\<close>). Files that
  cannot be read or decoded are outside the model.
\<close>

datatype json_file = NoFile | BadJson | Json json

record input_dir =
  dir_exists :: bool
  client_json :: json_file
  environments_json :: json_file
  download_rules_json :: json_file
  enrichment_rules_json :: json_file

text \<open>
  The \<^verbatim>\<open>"error"\<close> of a result with \<^verbatim>\<open>"success": False\<close>, one constructor for each message
  of the scripts (a caught exception is kept instead of its text):
  \<^item> \<open>InputDirMissing\<close>: Input directory '...' does not exist
  \<^item> \<open>RequiredFileMissing f\<close>: Required file 'f' not found in '...'
  \<^item> \<open>SsmUnreachable\<close>: Unable to connect to AWS SSM: ...
  \<^item> \<open>TagMissing\<close>: 'tag' field is missing from client.json
  \<^item> \<open>ClientParamFailed\<close>: Failed to create client configuration parameter
  \<^item> \<open>InvalidJson\<close>: Invalid JSON in configuration file: ... / Invalid JSON in rules file: ...
  \<^item> \<open>ConfigFileNotFound\<close>: Configuration file not found: ...
  \<^item> \<open>DeploymentError e\<close>: Error during configuration deployment: ...
  \<^item> \<open>RulesFileMissing\<close>: Rules file '...' does not exist
  \<^item> \<open>TableMissing\<close>: DynamoDB table '...' does not exist
  \<^item> \<open>DynamoUnreachable\<close>: Unable to connect to AWS DynamoDB: ... / Unable to connect to DynamoDB: ...
  \<^item> \<open>NotAnArray\<close>: Rules file must contain a JSON array
  \<^item> \<open>RuleNotObject n\<close>: Rule n must be a JSON object
  \<^item> \<open>RuleValidationFailed n\<close>: Rule n validation failed
  \<^item> \<open>RulesFileNotFound\<close>: Rules file '...' not found
  \<^item> \<open>InsertionError e\<close>: Error during rule insertion: ... / Error during enrichment rule insertion: ...
  \<^item> \<open>ErrorText m\<close>: the text \<open>m\<close> of a \<^verbatim>\<open>ValueError\<close> raised by the script itself
\<close>

datatype failure =
    InputDirMissing
  | RequiredFileMissing string
  | SsmUnreachable
  | TagMissing
  | ClientParamFailed
  | InvalidJson
  | DeploymentError py_error
  | RulesFileMissing
  | TableMissing
  | DynamoUnreachable
  | NotAnArray
  | RuleNotObject nat
  | RuleValidationFailed nat
  | InsertionError py_error
  | ErrorText string
  | ConfigFileNotFound
  | RulesFileNotFound

text \<open>
  The result of a successful \<^verbatim>\<open>create_client_config\<close>; the fields are the keys of the
  Python dict, with the prefix \<open>res_\<close>.
\<close>

record client_result =
  res_client_id :: string
  res_client_tag :: json
  res_environment_ids :: "(string \<times> string) list"
  res_pipeline_ids :: "(string \<times> string list) list"
  res_pipeline_key_maps :: "(string \<times> (string \<times> string) list) list"
  res_region :: string
  res_total_environments :: nat

datatype config_result = ConfigFailed failure | ConfigOk client_result

fun config_success :: "config_result \<Rightarrow> bool" where
  "config_success (ConfigFailed e) = False"
| "config_success (ConfigOk r) = True"

definition client_param_path :: "string \<Rightarrow> string" where
  "client_param_path cid = ''/spec/enrichment/clients/'' @ cid @ ''/config''"

definition env_param_path :: "string \<Rightarrow> string \<Rightarrow> string" where
  "env_param_path cid eid = ''/spec/enrichment/clients/'' @ cid @ ''/envs/'' @ eid @ ''/config''"

text \<open>
  \<^verbatim>\<open>with open(output_dir / name, 'w') as f: json.dump(v, f, indent=2)\<close>: the file is
  recorded by its name with the value it holds. The output directory is the fresh one that
  the orchestrator creates, and the scripts make no directory in it. So a name with a path
  separator cannot be opened: its first component is missing (\<^verbatim>\<open>FileNotFoundError\<close>) or is
  a file written before (\<^verbatim>\<open>NotADirectoryError\<close>). The limits that a file system puts on a
  name without separator (its length, a NUL byte) are outside the model.
\<close>

definition write_file :: "string \<Rightarrow> json \<Rightarrow> world \<Rightarrow> py_error + world" where
  "write_file name v w =
     (if CHR ''/'' \<in> set name
      then Inl (if takeWhile (\<lambda>c. c \<noteq> CHR ''/'') name \<in> set (map fst (files w))
                then NotADirectoryError else FileNotFoundError)
      else Inr (w\<lparr>files := files w @ [(name, v)]\<rparr>))"

text \<open>\<^verbatim>\<open>if dry_run_output_dir:\<close> and the write it guards.\<close>

definition dump_file :: "string option \<Rightarrow> string \<Rightarrow> json \<Rightarrow> world \<Rightarrow> py_error + world" where
  "dump_file out_dir name v w = (if out_dir \<noteq> None then write_file name v w else Inr w)"

text \<open>
  What the \<^verbatim>\<open>except\<close> clauses of \<^verbatim>\<open>create_client_config\<close> make of an exception:
  \<^verbatim>\<open>FileNotFoundError\<close> has a clause of its own.
\<close>

fun config_failure :: "py_error \<Rightarrow> failure" where
  "config_failure FileNotFoundError = ConfigFileNotFound"
| "config_failure e = DeploymentError e"

text \<open>
  \<^verbatim>\<open>for secret_key, secret_value in env_secrets.items()\<close>: a live run puts each secret
  (ignoring the outcome), a dry run collects them in \<^verbatim>\<open>secrets_output\<close>.
\<close>

fun secrets_loop :: "bool \<Rightarrow> string \<Rightarrow> string \<Rightarrow> dict \<Rightarrow> dict \<Rightarrow> world \<Rightarrow> dict \<times> world" where
  "secrets_loop dry_run cid eid [] secrets_output w = (secrets_output, w)"
| "secrets_loop dry_run cid eid ((secret_key, secret_value) # rest) secrets_output w =
     (if \<not> dry_run
      then secrets_loop dry_run cid eid rest secrets_output
             (snd (create_ssm_parameter (secret_path cid eid secret_key) (Raw secret_value)
                     PSecureString w))
      else secrets_loop dry_run cid eid rest
             (AList.update secret_key secret_value secrets_output) w)"

text \<open>\<^verbatim>\<open>if env_secrets:\<close> and the block it guards, with the secrets file of a dry run.\<close>

definition deploy_secrets ::
    "bool \<Rightarrow> string option \<Rightarrow> string \<Rightarrow> string \<Rightarrow> string \<Rightarrow> json option \<Rightarrow> world \<Rightarrow>
     (py_error + unit) \<times> world" where
  "deploy_secrets dry_run out_dir cid eid env_key env_secrets w =
     (case env_secrets of
        None \<Rightarrow> (Inr (), w)
      | Some s \<Rightarrow>
          if \<not> truthy s then (Inr (), w)
          else (case s of
                  JObj secs \<Rightarrow>
                    (let (secrets_output, w1) = secrets_loop dry_run cid eid secs [] w
                     in if dry_run \<and> secrets_output \<noteq> [] \<and> out_dir \<noteq> None
                        then (case write_file (''environment_'' @ env_key @ ''_secrets.json'')
                                     (JObj secrets_output) w1 of
                                Inl e \<Rightarrow> (Inl e, w1)
                              | Inr w2 \<Rightarrow> (Inr (), w2))
                        else (Inr (), w1))
                | _ \<Rightarrow> (Inl AttributeError, w)))"

type_synonym env_acc =
  "(string \<times> string) list \<times> (string \<times> string list) list \<times> (string \<times> (string \<times> string) list) list"

text \<open>
  The second half of the loop body: the environment parameter (or its dry-run file), then
  the secrets. A failed write of the environment parameter in a live run is the
  \<^verbatim>\<open>continue\<close>: the secrets of that environment are skipped.
\<close>

definition store_environment ::
    "bool \<Rightarrow> string option \<Rightarrow> string \<Rightarrow> string \<Rightarrow> string \<Rightarrow> dict \<Rightarrow> json option \<Rightarrow> world \<Rightarrow>
     (py_error + unit) \<times> world" where
  "store_environment dry_run out_dir cid env_id env_key env_config env_secrets w =
     (if \<not> dry_run
      then (case create_ssm_parameter (env_param_path cid env_id) (Dumps (JObj env_config))
                   PString w of
              (False, w3) \<Rightarrow> (Inr (), w3)
            | (True, w3) \<Rightarrow> deploy_secrets dry_run out_dir cid env_id env_key env_secrets w3)
      else (case dump_file out_dir (''environment_'' @ env_key @ ''_config.json'')
                   (JObj env_config) w of
              Inl e \<Rightarrow> (Inl e, w)
            | Inr w3 \<Rightarrow> deploy_secrets dry_run out_dir cid env_id env_key env_secrets w3))"

text \<open>
  The body of \<^verbatim>\<open>for env_key, env_config in environments_config.items()\<close> for one
  environment; the accumulator holds \<^verbatim>\<open>environment_ids\<close>, \<^verbatim>\<open>pipeline_ids\<close> and
  \<^verbatim>\<open>pipeline_key_maps\<close>.
\<close>

definition environment_step ::
    "bool \<Rightarrow> string option \<Rightarrow> string \<Rightarrow> string \<Rightarrow> string \<Rightarrow> json \<Rightarrow> env_acc \<Rightarrow> world \<Rightarrow>
     (py_error + env_acc) \<times> world" where
  "environment_step dry_run out_dir client_tag cid env_key env_config0 acc w =
     (case env_config0 of
        JObj env_config \<Rightarrow>
          (case map_of env_config ''tag'' of
             None \<Rightarrow> (Inl KeyError, w)
           | Some tag \<Rightarrow>
               (let (env_id, w1) = generate_config_id client_tag (py_str w tag) w;
                    env_config1 = AList.update ''id'' (JStr env_id) env_config;
                    env_ids = AList.update env_key env_id (fst acc);
                    env_secrets = map_of env_config1 ''secret'';
                    env_config2 = AList.delete ''secret'' env_config1
                in case update_config_ids env_config2 client_tag cid env_id w1 of
                     (Inl e, w2) \<Rightarrow> (Inl e, w2)
                   | (Inr (env_config3, env_pipeline_ids, pipe_map), w2) \<Rightarrow>
                       (let acc' = (env_ids,
                                    AList.update env_key env_pipeline_ids (fst (snd acc)),
                                    AList.update env_key pipe_map (snd (snd acc)))
                        in case store_environment dry_run out_dir cid env_id env_key
                                  env_config3 env_secrets w2 of
                             (Inl e, w4) \<Rightarrow> (Inl e, w4)
                           | (Inr u, w4) \<Rightarrow> (Inr acc', w4))))
      | _ \<Rightarrow> (Inl TypeError, w))"

fun environments_loop ::
    "bool \<Rightarrow> string option \<Rightarrow> string \<Rightarrow> string \<Rightarrow> (string \<times> json) list \<Rightarrow> env_acc \<Rightarrow> world \<Rightarrow>
     (py_error + env_acc) \<times> world" where
  "environments_loop dry_run out_dir client_tag cid [] acc w = (Inr acc, w)"
| "environments_loop dry_run out_dir client_tag cid ((env_key, env_config) # rest) acc w =
     (case environment_step dry_run out_dir client_tag cid env_key env_config acc w of
        (Inl e, w1) \<Rightarrow> (Inl e, w1)
      | (Inr acc', w1) \<Rightarrow> environments_loop dry_run out_dir client_tag cid rest acc' w1)"

text \<open>
  \<^verbatim>\<open>if "tag" not in client_config\<close>, then \<^verbatim>\<open>client_config["tag"]\<close> and
  \<^verbatim>\<open>client_config["id"] = ...\<close>, on whatever value the file holds: \<open>Inl\<close> is the failure the
  run ends with, \<open>Inr\<close> the dict and its tag.
\<close>

definition client_tag_of :: "json \<Rightarrow> failure + dict \<times> json" where
  "client_tag_of client_config =
     (case client_config of
        JObj kvs \<Rightarrow> (case map_of kvs ''tag'' of None \<Rightarrow> Inl TagMissing | Some t \<Rightarrow> Inr (kvs, t))
      | JArr xs \<Rightarrow> if JStr ''tag'' \<in> set xs then Inl (DeploymentError TypeError) else Inl TagMissing
      | JStr s \<Rightarrow> if contains s ''tag'' then Inl (DeploymentError TypeError) else Inl TagMissing
      | _ \<Rightarrow> Inl (DeploymentError TypeError))"

text \<open>
  The client configuration goes to its parameter in a live run and to
  \<^verbatim>\<open>client_config.json\<close> in a dry run; the flag is the result of \<^verbatim>\<open>create_ssm_parameter\<close>.
\<close>

definition store_client ::
    "bool \<Rightarrow> string option \<Rightarrow> string \<Rightarrow> dict \<Rightarrow> world \<Rightarrow> py_error + bool \<times> world" where
  "store_client dry_run out_dir cid client1 w =
     (if \<not> dry_run
      then Inr (create_ssm_parameter (client_param_path cid) (Dumps (JObj client1)) PString w)
      else (case dump_file out_dir ''client_config.json'' (JObj client1) w of
              Inl e \<Rightarrow> Inl e
            | Inr w1 \<Rightarrow> Inr (True, w1)))"

text \<open>The part of \<^verbatim>\<open>create_client_config\<close> after both files are loaded.\<close>

definition deploy_client ::
    "json \<Rightarrow> json \<Rightarrow> string \<Rightarrow> bool \<Rightarrow> string option \<Rightarrow> world \<Rightarrow> config_result \<times> world" where
  "deploy_client client_config environments_config region_name dry_run out_dir w =
     (case client_tag_of client_config of
        Inl f \<Rightarrow> (ConfigFailed f, w)
      | Inr (client, tag) \<Rightarrow>
          (let (cid, w1) = generate_config_id (py_str w tag) ''cid'' w;
               client1 = AList.update ''id'' (JStr cid) client
           in case store_client dry_run out_dir cid client1 w1 of
                Inl e \<Rightarrow> (ConfigFailed (config_failure e), w1)
              | Inr (ok, w2) \<Rightarrow>
                  if \<not> ok then (ConfigFailed ClientParamFailed, w2)
                  else (case environments_config of
                          JObj envs \<Rightarrow>
                            (case environments_loop dry_run out_dir (py_str w tag) cid envs
                                    ([], [], []) w2 of
                               (Inl e, w3) \<Rightarrow> (ConfigFailed (config_failure e), w3)
                             | (Inr (env_ids, pipe_ids, pipe_maps), w3) \<Rightarrow>
                                 (ConfigOk \<lparr>res_client_id = cid, res_client_tag = tag,
                                            res_environment_ids = env_ids,
                                            res_pipeline_ids = pipe_ids,
                                            res_pipeline_key_maps = pipe_maps,
                                            res_region = region_name,
                                            res_total_environments = length envs\<rparr>, w3))
                        | _ \<Rightarrow> (ConfigFailed (DeploymentError AttributeError), w2))))"

definition create_client_config ::
    "input_dir \<Rightarrow> string \<Rightarrow> bool \<Rightarrow> string option \<Rightarrow> world \<Rightarrow> config_result \<times> world" where
  "create_client_config inp region_name dry_run out_dir w =
     (if \<not> dir_exists inp then (ConfigFailed InputDirMissing, w)
      else if client_json inp = NoFile then (ConfigFailed (RequiredFileMissing ''client.json''), w)
      else if environments_json inp = NoFile
           then (ConfigFailed (RequiredFileMissing ''environments.json''), w)
      else if \<not> dry_run \<and> \<not> ssm_reachable w then (ConfigFailed SsmUnreachable, w)
      else (case (client_json inp, environments_json inp) of
              (Json client_config, Json environments_config) \<Rightarrow>
                deploy_client client_config environments_config region_name dry_run out_dir w
            | _ \<Rightarrow> (ConfigFailed InvalidJson, w)))"

section \<open>insert_download_rules.py\<close>

definition generate_rule_id :: "string \<Rightarrow> nat \<Rightarrow> string" where
  "generate_rule_id guid rule_num = guid @ ''#rule_'' @ str_nat rule_num"

text \<open>
  \<^verbatim>\<open>insert_item_to_dynamodb\<close>: the \<^verbatim>\<open>put_item\<close> is logged with its outcome; an exception
  becomes the result \<open>False\<close>.
\<close>

definition insert_item_to_dynamodb :: "string \<Rightarrow> json \<Rightarrow> world \<Rightarrow> bool \<times> world" where
  "insert_item_to_dynamodb table_name item w =
     (let ok = ddb_ok w (length (ddb_calls w))
      in (ok, w\<lparr>ddb_calls := ddb_calls w @
                  [\<lparr>ddb_table = table_name, ddb_item = item, ddb_ok_result = ok\<rparr>]\<rparr>))"

text \<open>\<^verbatim>\<open>d.get(k, default)\<close>, and \<^verbatim>\<open>d.get(k)\<close> whose default is \<^verbatim>\<open>None\<close>.\<close>

definition get_default :: "dict \<Rightarrow> string \<Rightarrow> json \<Rightarrow> json" where
  "get_default d k dflt = (case map_of d k of Some v \<Rightarrow> v | None \<Rightarrow> dflt)"

definition dict_get :: "dict \<Rightarrow> string \<Rightarrow> json" where
  "dict_get d k = get_default d k JNull"

text \<open>The DynamoDB attribute values \<^verbatim>\<open>{'S': v}\<close> and \<^verbatim>\<open>{'N': v}\<close>.\<close>

definition attr_S :: "json \<Rightarrow> json" where
  "attr_S v = JObj [(''S'', v)]"

definition attr_N :: "json \<Rightarrow> json" where
  "attr_N v = JObj [(''N'', v)]"

definition convert_to_dynamodb_item ::
    "dict \<Rightarrow> string \<Rightarrow> string \<Rightarrow> string \<Rightarrow> string \<Rightarrow> json" where
  "convert_to_dynamodb_item rule_data rule_id env_id client_id pipeline_id =
     JObj [(''rule_id'', attr_S (JStr rule_id)),
           (''env_id'', attr_S (JStr env_id)),
           (''client_id'', attr_S (JStr client_id)),
           (''pipeline_id'', attr_S (JStr pipeline_id)),
           (''description'', attr_S (get_default rule_data ''description'' (JStr ''''))),
           (''type'', attr_S (get_default rule_data ''type'' (JStr ''''))),
           (''values'', attr_S (get_default rule_data ''values'' (JStr '''')))]"

text \<open>\<^verbatim>\<open>isinstance(d[k], str)\<close> for a key that may be absent.\<close>

fun isinstance_str :: "json option \<Rightarrow> bool" where
  "isinstance_str (Some (JStr s)) = True"
| "isinstance_str v = False"

definition validate_rule_data :: "dict \<Rightarrow> nat \<Rightarrow> bool" where
  "validate_rule_data rule_data index =
     (if list_ex (\<lambda>field. map_of rule_data field = None) [''description'', ''type'', ''values'']
      then False
      else if \<not> isinstance_str (map_of rule_data ''description'') then False
      else if \<not> isinstance_str (map_of rule_data ''type'') then False
      else if \<not> isinstance_str (map_of rule_data ''values'') then False
      else True)"

record download_result =
  res_total_rules :: nat
  res_successful_inserts :: nat
  res_failed_inserts :: nat
  res_rule_guid :: "string option"

text \<open>A result of \<^verbatim>\<open>insert_download_rules\<close>: \<open>DownloadOk\<close> is \<^verbatim>\<open>"success": True\<close>.\<close>

datatype download_outcome = DownloadFailed failure | DownloadOk download_result

fun download_success :: "download_outcome \<Rightarrow> bool" where
  "download_success (DownloadFailed e) = False"
| "download_success (DownloadOk r) = True"

text \<open>
  \<^verbatim>\<open>[rule for rule in rules_data if rule.get('pipeline') == pipeline_key]\<close>; a rule that is
  not a dict has no \<^verbatim>\<open>get\<close>.
\<close>

fun filter_rules :: "string \<Rightarrow> json list \<Rightarrow> py_error + json list" where
  "filter_rules pipeline_key [] = Inr []"
| "filter_rules pipeline_key (rule # rest) =
     (case rule of
        JObj r \<Rightarrow>
          (case filter_rules pipeline_key rest of
             Inl e \<Rightarrow> Inl e
           | Inr kept \<Rightarrow>
               Inr (if map_of r ''pipeline'' = Some (JStr pipeline_key) then rule # kept else kept))
      | _ \<Rightarrow> Inl AttributeError)"

text \<open>
  The validation loop, from index \<open>i\<close>: the first rule that is not a dict or fails
  \<^verbatim>\<open>validate_rule_data\<close> ends the invocation; otherwise every rule is a dict.
\<close>

fun validate_rules :: "json list \<Rightarrow> nat \<Rightarrow> failure + dict list" where
  "validate_rules [] i = Inr []"
| "validate_rules (rule_data # rest) i =
     (case rule_data of
        JObj r \<Rightarrow>
          if \<not> validate_rule_data r i then Inl (RuleValidationFailed (i + 1))
          else (case validate_rules rest (i + 1) of
                  Inl f \<Rightarrow> Inl f
                | Inr rs \<Rightarrow> Inr (r # rs))
      | _ \<Rightarrow> Inl (RuleNotObject (i + 1)))"

text \<open>\<^verbatim>\<open>item[k]['S']\<close> of an item built by \<^verbatim>\<open>convert_to_dynamodb_item\<close>.\<close>

definition item_S :: "json \<Rightarrow> string \<Rightarrow> json" where
  "item_S item k =
     (case item of
        JObj kvs \<Rightarrow> (case map_of kvs k of Some (JObj a) \<Rightarrow> get_default a ''S'' JNull | _ \<Rightarrow> JNull)
      | _ \<Rightarrow> JNull)"

definition readable_item :: "json \<Rightarrow> json" where
  "readable_item dynamodb_item =
     JObj (map (\<lambda>k. (k, item_S dynamodb_item k))
             [''rule_id'', ''env_id'', ''client_id'', ''pipeline_id'', ''description'', ''type'',
              ''values''])"

text \<open>
  The loop that processes the rules, from index \<open>i\<close>; the accumulator holds
  \<^verbatim>\<open>successful_inserts\<close>, \<^verbatim>\<open>failed_inserts\<close> and \<^verbatim>\<open>dry_run_items\<close>.
\<close>

fun rules_loop ::
    "bool \<Rightarrow> string \<Rightarrow> string \<Rightarrow> string \<Rightarrow> string \<Rightarrow> string \<Rightarrow> dict list \<Rightarrow> nat \<Rightarrow>
     nat \<times> nat \<times> json list \<Rightarrow> world \<Rightarrow> (nat \<times> nat \<times> json list) \<times> world" where
  "rules_loop dry_run table_name rule_guid env_id client_id pipeline_id [] i acc w = (acc, w)"
| "rules_loop dry_run table_name rule_guid env_id client_id pipeline_id (rule_data # rest) i
     (successful, failed, dry_run_items) w =
     (let rule_num = i + 1;
          rule_id = generate_rule_id rule_guid rule_num;
          dynamodb_item = convert_to_dynamodb_item rule_data rule_id env_id client_id pipeline_id
      in if dry_run
         then rules_loop dry_run table_name rule_guid env_id client_id pipeline_id rest (i + 1)
                (successful + 1, failed, dry_run_items @ [readable_item dynamodb_item]) w
         else (case insert_item_to_dynamodb table_name dynamodb_item w of
                 (True, w1) \<Rightarrow>
                   rules_loop dry_run table_name rule_guid env_id client_id pipeline_id rest (i + 1)
                     (successful + 1, failed, dry_run_items) w1
               | (False, w1) \<Rightarrow>
                   rules_loop dry_run table_name rule_guid env_id client_id pipeline_id rest (i + 1)
                     (successful, failed + 1, dry_run_items) w1))"

text \<open>\<^verbatim>\<open>str(uuid.uuid4())\<close>.\<close>

definition uuid4 :: "world \<Rightarrow> string \<times> world" where
  "uuid4 w = (uuid4_src w (uuid_pos w), w\<lparr>uuid_pos := uuid_pos w + 1\<rparr>)"

text \<open>A file of the input directory: none of them exists when the directory does not.\<close>

definition input_file :: "input_dir \<Rightarrow> (input_dir \<Rightarrow> json_file) \<Rightarrow> json_file" where
  "input_file inp sel = (if dir_exists inp then sel inp else NoFile)"

text \<open>
  The connectivity test of a live run: \<^verbatim>\<open>describe_table\<close> on the target table. \<open>None\<close>
  means that the run goes on.
\<close>

definition preflight :: "bool \<Rightarrow> string \<Rightarrow> world \<Rightarrow> failure option" where
  "preflight dry_run table_name w =
     (if dry_run then None
      else (case tables w table_name of
              TableExists \<Rightarrow> None
            | ResourceNotFound \<Rightarrow> Some TableMissing
            | DescribeFailed \<Rightarrow> Some DynamoUnreachable))"

text \<open>
  What the \<^verbatim>\<open>except\<close> clauses of \<^verbatim>\<open>insert_download_rules\<close> make of an exception.
\<close>

fun download_failure :: "py_error \<Rightarrow> failure" where
  "download_failure FileNotFoundError = RulesFileNotFound"
| "download_failure e = InsertionError e"

text \<open>The name of the dry-run file: \<^verbatim>\<open>f"rules_{safe_pipeline_id}.json"\<close>.\<close>

definition rules_output_file :: "string \<Rightarrow> string" where
  "rules_output_file pipeline_id =
     (let safe_pipeline_id = str_replace [CHR 0x5C] ''_'' (str_replace ''/'' ''_'' pipeline_id)
      in ''rules_'' @ safe_pipeline_id @ ''.json'')"

definition no_rules :: download_outcome where
  "no_rules = DownloadOk \<lparr>res_total_rules = 0, res_successful_inserts = 0,
                          res_failed_inserts = 0, res_rule_guid = None\<rparr>"

text \<open>
  The part of \<^verbatim>\<open>insert_download_rules\<close> from the validation on, for the list \<open>rules_data\<close>
  that is left after the filter.
\<close>

definition write_rules ::
    "string \<Rightarrow> string \<Rightarrow> string \<Rightarrow> string \<Rightarrow> bool \<Rightarrow> string option \<Rightarrow> json list \<Rightarrow> world \<Rightarrow>
     download_outcome \<times> world" where
  "write_rules env_id client_id pipeline_id table_name dry_run out_dir rules_data w =
     (case validate_rules rules_data 0 of
        Inl f \<Rightarrow> (DownloadFailed f, w)
      | Inr rules \<Rightarrow>
          (let (rule_guid, w1) = uuid4 w;
               ((successful, failed, dry_run_items), w2) =
                 rules_loop dry_run table_name rule_guid env_id client_id pipeline_id rules 0
                   (0, 0, []) w1;
               saved = (if dry_run \<and> dry_run_items \<noteq> [] \<and> out_dir \<noteq> None
                        then write_file (rules_output_file pipeline_id) (JArr dry_run_items) w2
                        else Inr w2)
           in case saved of
                Inl e \<Rightarrow> (DownloadFailed (download_failure e), w2)
              | Inr w3 \<Rightarrow>
                  (DownloadOk \<lparr>res_total_rules = length rules_data,
                               res_successful_inserts = successful,
                               res_failed_inserts = failed,
                               res_rule_guid = Some rule_guid\<rparr>, w3)))"

text \<open>\<^verbatim>\<open>if pipeline_key:\<close> holds for a key that is neither \<^verbatim>\<open>None\<close> nor the empty string.\<close>

fun key_given :: "string option \<Rightarrow> bool" where
  "key_given None = False"
| "key_given (Some k) = (k \<noteq> [])"

definition insert_download_rules ::
    "string \<Rightarrow> string \<Rightarrow> string \<Rightarrow> input_dir \<Rightarrow> string \<Rightarrow> string \<Rightarrow> bool \<Rightarrow> string option \<Rightarrow>
     string option \<Rightarrow> world \<Rightarrow> download_outcome \<times> world" where
  "insert_download_rules env_id client_id pipeline_id inp table_name region_name dry_run out_dir
     pipeline_key w =
     (if input_file inp download_rules_json = NoFile then (DownloadFailed RulesFileMissing, w)
      else (case preflight dry_run table_name w of
              Some f \<Rightarrow> (DownloadFailed f, w)
            | None \<Rightarrow>
                (case input_file inp download_rules_json of
                   Json (JArr rules_data) \<Rightarrow>
                     if rules_data = [] then (no_rules, w)
                     else (case (if key_given pipeline_key then pipeline_key else None) of
                             Some k \<Rightarrow>
                               (case filter_rules k rules_data of
                                  Inl e \<Rightarrow> (DownloadFailed (InsertionError e), w)
                                | Inr filtered_rules \<Rightarrow>
                                    if filtered_rules = [] then (no_rules, w)
                                    else write_rules env_id client_id pipeline_id table_name
                                           dry_run out_dir filtered_rules w)
                           | None \<Rightarrow>
                               write_rules env_id client_id pipeline_id table_name dry_run out_dir
                                 rules_data w)
                 | Json v \<Rightarrow> (DownloadFailed NotAnArray, w)
                 | _ \<Rightarrow> (DownloadFailed InvalidJson, w))))"

section \<open>insert_enrichment_rules.py\<close>

text \<open>
  \<^verbatim>\<open>int(s)\<close> of a string, base 10. For an ASCII string: white space around (space, tab,
  line feed, vertical tab, form feed, carriage return), an optional sign, then digits,
  where single underscores may stand between digits.
\<close>

definition is_space :: "char \<Rightarrow> bool" where
  "is_space c = (c \<in> set [CHR 0x20, CHR 0x09, CHR 0x0A, CHR 0x0B, CHR 0x0C, CHR 0x0D])"

definition is_digit :: "char \<Rightarrow> bool" where
  "is_digit c = (c \<in> set ''0123456789'')"

definition digit_val :: "char \<Rightarrow> nat" where
  "digit_val c = of_char c - 48"

definition strip :: "string \<Rightarrow> string" where
  "strip s = rev (dropWhile is_space (rev (dropWhile is_space s)))"

fun parse_digits :: "string \<Rightarrow> nat \<Rightarrow> nat option" where
  "parse_digits [] acc = Some acc"
| "parse_digits [c] acc = (if is_digit c then Some (10 * acc + digit_val c) else None)"
| "parse_digits (c # d # ds) acc =
     (if is_digit c then parse_digits (d # ds) (10 * acc + digit_val c)
      else if c = CHR ''_'' \<and> is_digit d then parse_digits ds (10 * acc + digit_val d)
      else None)"

definition parse_nat :: "string \<Rightarrow> nat option" where
  "parse_nat s = (case s of [] \<Rightarrow> None
                  | c # cs \<Rightarrow> if is_digit c then parse_digits cs (digit_val c) else None)"

definition int_ascii :: "string \<Rightarrow> int option" where
  "int_ascii s =
     (case strip s of
        [] \<Rightarrow> None
      | c # cs \<Rightarrow>
          if c = CHR ''-'' then map_option (\<lambda>n. - int n) (parse_nat cs)
          else if c = CHR ''+'' then map_option int (parse_nat cs)
          else map_option int (parse_nat (c # cs)))"

text \<open>
  \<^verbatim>\<open>int(s)\<close> of any string: the integer, or the message of the \<^verbatim>\<open>ValueError\<close>. An ASCII
  string of at most 640 characters is read as above; for any other string the interpreter
  decides.
\<close>

definition int_of_str :: "world \<Rightarrow> string \<Rightarrow> string + int" where
  "int_of_str w s =
     (if is_ascii s \<and> length s \<le> 640
      then (case int_ascii s of
              Some n \<Rightarrow> Inr n
            | None \<Rightarrow> Inl (''invalid literal for int() with base 10: '' @ repr_str w s))
      else int_other w s)"

text \<open>\<^verbatim>\<open>int(v)\<close> of a loaded value; \<open>None\<close> is any exception.\<close>

fun py_int :: "world \<Rightarrow> json \<Rightarrow> int option" where
  "py_int w (JInt n) = Some n"
| "py_int w (JBool b) = Some (if b then 1 else 0)"
| "py_int w (JStr s) = (case int_of_str w s of Inr n \<Rightarrow> Some n | Inl m \<Rightarrow> None)"
| "py_int w v = None"

definition resolve_env_id :: "world \<Rightarrow> json \<Rightarrow> (string \<times> string) list option \<Rightarrow> string" where
  "resolve_env_id w raw_env_id environment_id_map =
     (let env_id = py_str w raw_env_id
      in case environment_id_map of
           None \<Rightarrow> env_id
         | Some m \<Rightarrow> (case map_of m env_id of Some i \<Rightarrow> i | None \<Rightarrow> env_id))"

definition resolve_client_id :: "world \<Rightarrow> json \<Rightarrow> string option \<Rightarrow> string option" where
  "resolve_client_id w raw_client_id default_client_id =
     (if raw_client_id = JNull \<or> raw_client_id = JStr '''' then default_client_id
      else Some (py_str w raw_client_id))"

definition coerce_version :: "world \<Rightarrow> json \<Rightarrow> py_error + string" where
  "coerce_version w raw_version =
     (case py_int w raw_version of
        Some n \<Rightarrow> Inr (str_int n)
      | None \<Rightarrow> Inl (ValueError (''version '' @ [CHR 0x27] @ py_str w raw_version @ [CHR 0x27]
                                   @ '' is not a number'')))"

text \<open>
  \<^verbatim>\<open>if isinstance(v, dict) and t in v: v = v[t]\<close>: a DynamoDB-typed input value is
  unwrapped.
\<close>

definition unwrap :: "string \<Rightarrow> json \<Rightarrow> json" where
  "unwrap t v = (case v of
                   JObj kvs \<Rightarrow> (case map_of kvs t of Some x \<Rightarrow> x | None \<Rightarrow> v)
                 | _ \<Rightarrow> v)"

text \<open>
  \<^verbatim>\<open>_build_dynamo_item\<close>: the pair of the DynamoDB item and the readable item, or the
  exception. The readable version is \<^verbatim>\<open>int(version_value)\<close> of the coerced text.
\<close>

definition build_dynamo_item ::
    "world \<Rightarrow> json \<Rightarrow> (string \<times> string) list option \<Rightarrow> string option \<Rightarrow>
     py_error + json \<times> json" where
  "build_dynamo_item w raw_item environment_id_map default_client_id =
     (case raw_item of
        JObj r \<Rightarrow>
          (let env_raw = unwrap ''S'' (dict_get r ''environment_id'')
           in if env_raw = JNull then Inl (ValueError ''environment_id is required'')
              else
          (let env_id_value = resolve_env_id w env_raw environment_id_map;
               version_raw = unwrap ''N'' (dict_get r ''version'')
           in if version_raw = JNull then Inl (ValueError ''version is required'')
              else
          (case coerce_version w version_raw of
             Inl e \<Rightarrow> Inl e
           | Inr version_value \<Rightarrow>
          (let client_id_value =
                 resolve_client_id w (unwrap ''S'' (dict_get r ''client_id'')) default_client_id;
               rules_json_value = unwrap ''S'' (dict_get r ''rules_json'')
           in if rules_json_value = JNull then Inl (ValueError ''rules_json is required'')
              else
          (case int_of_str w version_value of
             Inl m \<Rightarrow> Inl (ValueError m)
           | Inr n \<Rightarrow>
          (let client_part = (case client_id_value of
                                Some c \<Rightarrow> if c \<noteq> [] then [c] else []
                              | None \<Rightarrow> [])
           in Inr (JObj ([(''environment_id'', attr_S (JStr env_id_value)),
                          (''version'', attr_N (JStr version_value)),
                          (''rules_json'', attr_S (JStr (py_str w rules_json_value)))]
                         @ map (\<lambda>c. (''client_id'', attr_S (JStr c))) client_part),
                   JObj ([(''environment_id'', JStr env_id_value),
                          (''version'', JInt n),
                          (''rules_json'', rules_json_value)]
                         @ map (\<lambda>c. (''client_id'', JStr c)) client_part))))))))
      | _ \<Rightarrow> Inl (ValueError ''item must be a JSON object''))"

text \<open>The loop that builds every item before anything is written.\<close>

fun build_items ::
    "world \<Rightarrow> json list \<Rightarrow> (string \<times> string) list option \<Rightarrow> string option \<Rightarrow>
     py_error + (json \<times> json) list" where
  "build_items w [] environment_id_map client_id = Inr []"
| "build_items w (raw_item # rest) environment_id_map client_id =
     (case build_dynamo_item w raw_item environment_id_map client_id of
        Inl e \<Rightarrow> Inl e
      | Inr item \<Rightarrow>
          (case build_items w rest environment_id_map client_id of
             Inl e \<Rightarrow> Inl e
           | Inr items \<Rightarrow> Inr (item # items)))"

text \<open>The loop over \<^verbatim>\<open>zip(dynamo_items, readable_items)\<close>, counting.\<close>

fun enrichment_loop ::
    "bool \<Rightarrow> string \<Rightarrow> (json \<times> json) list \<Rightarrow> nat \<times> nat \<Rightarrow> world \<Rightarrow> (nat \<times> nat) \<times> world" where
  "enrichment_loop dry_run table_name [] acc w = (acc, w)"
| "enrichment_loop dry_run table_name ((dynamo_item, readable) # rest) (successful, failed) w =
     (if dry_run then enrichment_loop dry_run table_name rest (successful + 1, failed) w
      else (case insert_item_to_dynamodb table_name dynamo_item w of
              (True, w1) \<Rightarrow> enrichment_loop dry_run table_name rest (successful + 1, failed) w1
            | (False, w1) \<Rightarrow> enrichment_loop dry_run table_name rest (successful, failed + 1) w1))"

record enrichment_result =
  enr_success :: bool
  enr_total_rules :: nat
  enr_successful_inserts :: nat
  enr_failed_inserts :: nat

text \<open>
  A result of \<^verbatim>\<open>insert_enrichment_rules\<close>: \<open>EnrichmentFailed\<close> is a dict with \<^verbatim>\<open>"success": False\<close>
  and an \<^verbatim>\<open>"error"\<close>, \<open>EnrichmentDone\<close> the dict with the counts, whose \<^verbatim>\<open>"success"\<close> is
  \<^verbatim>\<open>failed == 0\<close>.
\<close>

datatype enrichment_outcome = EnrichmentFailed failure | EnrichmentDone enrichment_result

fun enrichment_success :: "enrichment_outcome \<Rightarrow> bool" where
  "enrichment_success (EnrichmentFailed e) = False"
| "enrichment_success (EnrichmentDone r) = enr_success r"

text \<open>
  What the \<^verbatim>\<open>except\<close> clauses of \<^verbatim>\<open>insert_enrichment_rules\<close> make of an exception.
\<close>

fun enrichment_failure :: "py_error \<Rightarrow> failure" where
  "enrichment_failure (ValueError m) = ErrorText m"
| "enrichment_failure FileNotFoundError = RulesFileNotFound"
| "enrichment_failure e = InsertionError e"

definition insert_enrichment_rules ::
    "input_dir \<Rightarrow> string \<Rightarrow> string \<Rightarrow> bool \<Rightarrow> string option \<Rightarrow> (string \<times> string) list option \<Rightarrow>
     string option \<Rightarrow> world \<Rightarrow> enrichment_outcome \<times> world" where
  "insert_enrichment_rules inp table_name region_name dry_run out_dir environment_id_map cid w =
     (if input_file inp enrichment_rules_json = NoFile then (EnrichmentFailed RulesFileMissing, w)
      else (case preflight dry_run table_name w of
              Some f \<Rightarrow> (EnrichmentFailed f, w)
            | None \<Rightarrow>
                (case input_file inp enrichment_rules_json of
                   Json (JArr rules_data) \<Rightarrow>
                     (case build_items w rules_data environment_id_map cid of
                        Inl e \<Rightarrow> (EnrichmentFailed (enrichment_failure e), w)
                      | Inr items \<Rightarrow>
                          (let ((successful, failed), w1) =
                                 enrichment_loop dry_run table_name items (0, 0) w;
                               saved = (if dry_run \<and> items \<noteq> [] \<and> out_dir \<noteq> None
                                        then write_file ''enrichment_rules.json''
                                               (JArr (map snd items)) w1
                                        else Inr w1)
                           in case saved of
                                Inl e \<Rightarrow> (EnrichmentFailed (enrichment_failure e), w1)
                              | Inr w2 \<Rightarrow>
                                  (EnrichmentDone \<lparr>enr_success = (failed = 0),
                                                   enr_total_rules = length items,
                                                   enr_successful_inserts = successful,
                                                   enr_failed_inserts = failed\<rparr>, w2)))
                 | Json v \<Rightarrow> (EnrichmentFailed NotAnArray, w)
                 | _ \<Rightarrow> (EnrichmentFailed InvalidJson, w))))"

section \<open>deploy_master.py\<close>

definition run_client_config_maker ::
    "input_dir \<Rightarrow> string \<Rightarrow> bool \<Rightarrow> string option \<Rightarrow> world \<Rightarrow> (bool \<times> config_result) \<times> world" where
  "run_client_config_maker inp region_name dry_run out_dir w =
     (let (result, w1) = create_client_config inp region_name dry_run out_dir w
      in ((config_success result, result), w1))"

text \<open>\<^verbatim>\<open>{v: k for k, v in pipeline_key_to_id.items()}\<close>.\<close>

definition reverse_map :: "(string \<times> string) list \<Rightarrow> (string \<times> string) list" where
  "reverse_map m = fold (\<lambda>(k, v) acc. AList.update v k acc) m []"

text \<open>\<^verbatim>\<open>for pipeline_id in env_pipeline_ids\<close>, with \<^verbatim>\<open>overall_success\<close> as accumulator.\<close>

fun download_pipelines_loop ::
    "string \<Rightarrow> string \<Rightarrow> input_dir \<Rightarrow> string \<Rightarrow> string \<Rightarrow> bool \<Rightarrow> string option \<Rightarrow>
     (string \<times> string) list \<Rightarrow> string list \<Rightarrow> bool \<Rightarrow> world \<Rightarrow> bool \<times> world" where
  "download_pipelines_loop env_id cid inp table_name region_name dry_run out_dir id_to_key_map []
     overall_success w = (overall_success, w)"
| "download_pipelines_loop env_id cid inp table_name region_name dry_run out_dir id_to_key_map
     (pipeline_id # rest) overall_success w =
     (let pipeline_key = map_of id_to_key_map pipeline_id;
          (result, w1) = insert_download_rules env_id cid pipeline_id inp table_name region_name
                           dry_run out_dir pipeline_key w
      in download_pipelines_loop env_id cid inp table_name region_name dry_run out_dir
           id_to_key_map rest (if download_success result then overall_success else False) w1)"

text \<open>\<^verbatim>\<open>for env_key, env_id in environment_ids.items()\<close>.\<close>

fun download_environments_loop ::
    "client_result \<Rightarrow> input_dir \<Rightarrow> string \<Rightarrow> string \<Rightarrow> bool \<Rightarrow> string option \<Rightarrow>
     (string \<times> string) list \<Rightarrow> bool \<Rightarrow> world \<Rightarrow> bool \<times> world" where
  "download_environments_loop cr inp table_name region_name dry_run out_dir [] overall_success w =
     (overall_success, w)"
| "download_environments_loop cr inp table_name region_name dry_run out_dir ((env_key, env_id) # rest)
     overall_success w =
     (let env_pipeline_ids = (case map_of (res_pipeline_ids cr) env_key of
                                Some ps \<Rightarrow> ps | None \<Rightarrow> []);
          pipeline_key_to_id = (case map_of (res_pipeline_key_maps cr) env_key of
                                  Some m \<Rightarrow> m | None \<Rightarrow> [])
      in if env_pipeline_ids = []
         then download_environments_loop cr inp table_name region_name dry_run out_dir rest
                overall_success w
         else (let (ok, w1) = download_pipelines_loop env_id (res_client_id cr) inp table_name
                                region_name dry_run out_dir (reverse_map pipeline_key_to_id)
                                env_pipeline_ids overall_success w
               in download_environments_loop cr inp table_name region_name dry_run out_dir rest
                    ok w1))"

definition run_download_rules_insertion ::
    "client_result \<Rightarrow> input_dir \<Rightarrow> string \<Rightarrow> string \<Rightarrow> bool \<Rightarrow> string option \<Rightarrow> world \<Rightarrow>
     bool \<times> world" where
  "run_download_rules_insertion cr inp table_name region_name dry_run out_dir w =
     download_environments_loop cr inp table_name region_name dry_run out_dir
       (res_environment_ids cr) True w"

definition run_enrichment_rules_insertion ::
    "client_result \<Rightarrow> input_dir \<Rightarrow> string \<Rightarrow> string \<Rightarrow> bool \<Rightarrow> string option \<Rightarrow> world \<Rightarrow>
     (bool \<times> enrichment_outcome) \<times> world" where
  "run_enrichment_rules_insertion cr inp table_name region_name dry_run out_dir w =
     (let (result, w1) = insert_enrichment_rules inp table_name region_name dry_run out_dir
                           (Some (res_environment_ids cr)) (Some (res_client_id cr)) w
      in ((enrichment_success result, result), w1))"

text \<open>
  The command line of the orchestrator; \<open>arg_dry_run_dir\<close> is the time-stamped directory
  that a dry run creates for its output.
\<close>

record args =
  arg_table_name :: string
  arg_enrichment_table_name :: string
  arg_region :: string
  arg_dry_run :: bool
  arg_skip_rules :: bool
  arg_skip_enrichment_rules :: bool
  arg_dry_run_dir :: string

text \<open>
  Step 3 of \<^verbatim>\<open>main\<close> and the final summary. The summary reads
  \<^verbatim>\<open>enrichment_result['total_rules']\<close>, a key that a failed result does not have: the
  \<^verbatim>\<open>KeyError\<close> is caught nowhere and ends the process with status 1. Otherwise \<^verbatim>\<open>main\<close>
  returns and the status is 0.
\<close>

definition enrichment_and_summary ::
    "args \<Rightarrow> input_dir \<Rightarrow> client_result \<Rightarrow> string option \<Rightarrow> world \<Rightarrow> nat \<times> world" where
  "enrichment_and_summary a inp cr out_dir w =
     (if arg_skip_enrichment_rules a then (0, w)
      else if input_file inp enrichment_rules_json = NoFile then (1, w)
      else (let ((enrichment_ok, enrichment_res), w1) =
                  run_enrichment_rules_insertion cr inp (arg_enrichment_table_name a)
                    (arg_region a) (arg_dry_run a) out_dir w
            in case enrichment_res of
                 EnrichmentFailed f \<Rightarrow> (1, w1)
               | EnrichmentDone r \<Rightarrow> (0, w1)))"

text \<open>\<^verbatim>\<open>main\<close> of the orchestrator: the exit status of the process and the world it leaves.\<close>

definition main :: "args \<Rightarrow> input_dir \<Rightarrow> world \<Rightarrow> nat \<times> world" where
  "main a inp w =
     (let out_dir = (if arg_dry_run a then Some (arg_dry_run_dir a) else None)
      in if \<not> dir_exists inp then (1, w)
         else (case run_client_config_maker inp (arg_region a) (arg_dry_run a) out_dir w of
                 ((ok, ConfigOk cr), w1) \<Rightarrow>
                   if arg_skip_rules a then enrichment_and_summary a inp cr out_dir w1
                   else if input_file inp download_rules_json = NoFile then (1, w1)
                   else (let (rules_success, w2) =
                               run_download_rules_insertion cr inp (arg_table_name a)
                                 (arg_region a) (arg_dry_run a) out_dir w1
                         in enrichment_and_summary a inp cr out_dir w2)
               | ((ok, ConfigFailed f), w1) \<Rightarrow> (1, w1)))"

section \<open>Notions of the specification\<close>

text \<open>A record that is a JSON object, and the dict it holds.\<close>

fun is_dict :: "json \<Rightarrow> bool" where
  "is_dict (JObj d) = True"
| "is_dict v = False"

fun dict_of :: "json \<Rightarrow> dict" where
  "dict_of (JObj d) = d"
| "dict_of v = []"

text \<open>A record whose \<^verbatim>\<open>pipeline\<close> field equals the key \<open>k\<close>.\<close>

fun has_pipeline :: "string \<Rightarrow> json \<Rightarrow> bool" where
  "has_pipeline k (JObj d) = (map_of d ''pipeline'' = Some (JStr k))"
| "has_pipeline k v = False"

text \<open>A record with the three required string fields.\<close>

fun well_formed_rule :: "json \<Rightarrow> bool" where
  "well_formed_rule (JObj d) =
     list_all (\<lambda>field. isinstance_str (map_of d field)) [''description'', ''type'', ''values'']"
| "well_formed_rule v = False"

text \<open>
  The filtered list of one invocation: the records of the pipeline when a non-empty key is
  given, every record otherwise.
\<close>

definition kept_rules :: "string option \<Rightarrow> json list \<Rightarrow> json list" where
  "kept_rules pipeline_key rules_data =
     (case pipeline_key of
        Some k \<Rightarrow> if k \<noteq> [] then filter (has_pipeline k) rules_data else rules_data
      | None \<Rightarrow> rules_data)"

section \<open>Example inputs\<close>

text \<open>A world in which every remote call succeeds and nothing has happened yet.\<close>

definition example_world :: world where
  "example_world =
     \<lparr>urandom = (\<lambda>k. of_nat k), rand_pos = 0, uuid4_src = (\<lambda>k. ''guid-'' @ str_nat k),
      uuid_pos = 0, ssm_reachable = True, ssm_ok = (\<lambda>k. True), ssm_calls = [],
      tables = (\<lambda>t. TableExists), ddb_ok = (\<lambda>k. True), ddb_calls = [], files = [],
      repr_other = (\<lambda>s. s), int_other = (\<lambda>s. Inl [])\<rparr>"

text \<open>An input directory that holds only a rules file.\<close>

definition rules_dir :: "json \<Rightarrow> input_dir" where
  "rules_dir rules =
     \<lparr>dir_exists = True, client_json = NoFile, environments_json = NoFile,
      download_rules_json = Json rules, enrichment_rules_json = Json rules\<rparr>"

definition rule_a :: json where
  "rule_a = JObj [(''description'', JStr ''a''), (''type'', JStr ''x''), (''values'', JStr ''1''),
                  (''pipeline'', JStr ''p1'')]"

definition rule_b :: json where
  "rule_b = JObj [(''description'', JStr ''b''), (''type'', JStr ''y''), (''values'', JStr ''2''),
                  (''pipeline'', JStr ''p2'')]"

definition rule_no_values :: json where
  "rule_no_values = JObj [(''description'', JStr ''b''), (''type'', JStr ''y'')]"



text \<open>Two enrichment records, with the versions \<^verbatim>\<open>"3"\<close> and \<^verbatim>\<open>"abc"\<close>.\<close>

definition enr_v3 :: json where
  "enr_v3 = JObj [(''environment_id'', JStr ''prod''), (''version'', JStr ''3''),
                  (''rules_json'', JStr ''{}'')]"


text \<open>
  A live run in which only the first \<^verbatim>\<open>put_parameter\<close> succeeds and every \<^verbatim>\<open>put_item\<close>
  fails, on a client with one environment, one secret, one pipeline, one download rule and
  one enrichment rule.
\<close>

definition failing_world :: world where
  "failing_world = example_world\<lparr>ssm_ok := (\<lambda>k. k = 0), ddb_ok := (\<lambda>k. False)\<rparr>"

definition example_dir :: input_dir where
  "example_dir =
     \<lparr>dir_exists = True,
      client_json = Json (JObj [(''tag'', JStr ''acme'')]),
      environments_json =
        Json (JObj [(''prod'', JObj [(''tag'', JStr ''prod''),
                                     (''secret'', JObj [(''db'', JStr ''pw'')]),
                                     (''pipelines'', JObj [(''p1'', JObj [])])])]),
      download_rules_json = Json (JArr [rule_a]),
      enrichment_rules_json = Json (JArr [enr_v3])\<rparr>"

text \<open>
  The same client with a second environment that has no \<^verbatim>\<open>tag\<close>: the run raises on it,
  after the first environment is done.
\<close>

definition broken_later_dir :: input_dir where
  "broken_later_dir =
     example_dir\<lparr>environments_json :=
       Json (JObj [(''prod'', JObj [(''tag'', JStr ''prod''),
                                    (''secret'', JObj [(''db'', JStr ''pw'')]),
                                    (''pipelines'', JObj [(''p1'', JObj [])])]),
                   (''broken'', JObj [])])\<rparr>"


definition live_args :: args where
  "live_args = \<lparr>arg_table_name = ''spec-download-rule'',
                 arg_enrichment_table_name = ''spec-enrichment-rule'',
                 arg_region = ''us-east-1'', arg_dry_run = False, arg_skip_rules = False,
                 arg_skip_enrichment_rules = False, arg_dry_run_dir = ''out''\<rparr>"

text \<open>The sixteen hex digits that \<^verbatim>\<open>generate_random_hex\<close> yields when the random source stands at \<open>pos\<close>.\<close>

definition random_hex_at :: "world \<Rightarrow> nat \<Rightarrow> string" where
  "random_hex_at w pos = concat (map (\<lambda>k. hex_byte (urandom w k)) [pos ..< pos + 8])"

text \<open>
  The identifier of the \<open>k\<close>-th \<^verbatim>\<open>generate_config_id(client_tag, label)\<close> after the world
  \<open>w\<close>, when every call in between is a \<^verbatim>\<open>generate_config_id\<close> too.
\<close>

definition nth_id :: "world \<Rightarrow> string \<Rightarrow> string \<Rightarrow> nat \<Rightarrow> string" where
  "nth_id w client_tag label k =
     client_tag @ ''-'' @ label @ ''-'' @ random_hex_at w (rand_pos w + 8 * k)"

text \<open>The world after \<open>k\<close> more calls of \<^verbatim>\<open>generate_config_id\<close>.\<close>

definition advance :: "world \<Rightarrow> nat \<Rightarrow> world" where
  "advance w k = w\<lparr>rand_pos := rand_pos w + 8 * k\<rparr>"

text \<open>
  A config that the rewrite can process: each connection is a dict whose \<^verbatim>\<open>password\<close> and
  \<^verbatim>\<open>client_secret\<close> are strings (or absent, or falsy), each pipeline is a dict whose
  connections sub-map, if it has one, holds hashable values.
\<close>

fun str_or_falsy :: "json option \<Rightarrow> bool" where
  "str_or_falsy None = True"
| "str_or_falsy (Some (JStr s)) = True"
| "str_or_falsy (Some v) = (\<not> truthy v)"

fun well_typed_connection :: "json \<Rightarrow> bool" where
  "well_typed_connection (JObj c) =
     (str_or_falsy (map_of c ''password'') \<and> str_or_falsy (map_of c ''client_secret''))"
| "well_typed_connection v = False"

fun well_typed_pipeline :: "json \<Rightarrow> bool" where
  "well_typed_pipeline (JObj p) =
     (case map_of p ''connections'' of
        None \<Rightarrow> True
      | Some (JObj pcs) \<Rightarrow> list_all (\<lambda>tv. hashable (snd tv)) pcs
      | Some v \<Rightarrow> \<not> truthy v)"
| "well_typed_pipeline v = False"

definition well_typed_config :: "dict \<Rightarrow> bool" where
  "well_typed_config config =
     ((case map_of config ''connections'' of
         None \<Rightarrow> True
       | Some (JObj conns) \<Rightarrow> list_all (\<lambda>kv. well_typed_connection (snd kv)) conns
       | Some v \<Rightarrow> \<not> truthy v)
      \<and> (case map_of config ''pipelines'' of
            None \<Rightarrow> True
          | Some (JObj pipes) \<Rightarrow> list_all (\<lambda>kv. well_typed_pipeline (snd kv)) pipes
          | Some v \<Rightarrow> \<not> truthy v))"

text \<open>The symbolic keys of the connections of an environment config.\<close>

definition connection_keys :: "dict \<Rightarrow> string list" where
  "connection_keys config =
     (case map_of config ''connections'' of Some (JObj conns) \<Rightarrow> map fst conns | _ \<Rightarrow> [])"

text \<open>
  An environment config with two connections and a pipeline that uses one of them and
  names a connection that does not exist; the secret \<^verbatim>\<open>nope\<close> is not defined either.
\<close>

definition example_conns :: dict where
  "example_conns =
     [(''db'', JObj [(''password'', JStr ''secret.dbpw'')]),
      (''api'', JObj [(''client_secret'', JStr ''secret.nope'')])]"

definition example_pcs :: dict where
  "example_pcs = [(''source'', JStr ''api''), (''sink'', JStr ''missing'')]"

definition example_config :: dict where
  "example_config =
     [(''tag'', JStr ''prod''),
      (''connections'', JObj example_conns),
      (''pipelines'', JObj [(''p1'', JObj [(''connections'', JObj example_pcs)])])]"

definition example_rewritten :: dict where
  "example_rewritten =
     [(''tag'', JStr ''prod''),
      (''connections'',
       JObj [(''acme-con-0001020304050607'',
              JObj [(''password'', JStr ''/spec/enrichment/clients/CID/envs/EID/secrets/dbpw''),
                    (''id'', JStr ''acme-con-0001020304050607'')]),
             (''acme-con-08090a0b0c0d0e0f'',
              JObj [(''client_secret'', JStr ''/spec/enrichment/clients/CID/envs/EID/secrets/nope''),
                    (''id'', JStr ''acme-con-08090a0b0c0d0e0f'')])]),
      (''pipelines'',
       JObj [(''acme-pipe-1011121314151617'',
              JObj [(''connections'',
                     JObj [(''source'', JStr ''acme-con-08090a0b0c0d0e0f''),
                           (''sink'', JStr ''missing'')]),
                    (''id'', JStr ''acme-pipe-1011121314151617'')])])]"

text \<open>
  A client with the environment \<^verbatim>\<open>prod\<close>, which is \<open>example_config\<close> with a secret mapping
  that defines \<^verbatim>\<open>dbpw\<close> only, and the environment config that a run stores for it.
\<close>

definition dangling_dir :: input_dir where
  "dangling_dir =
     \<lparr>dir_exists = True,
      client_json = Json (JObj [(''tag'', JStr ''acme'')]),
      environments_json =
        Json (JObj [(''prod'',
                     JObj (example_config @ [(''secret'', JObj [(''dbpw'', JStr ''pw'')])]))]),
      download_rules_json = NoFile,
      enrichment_rules_json = NoFile\<rparr>"

definition dangling_stored :: json where
  "dangling_stored =
     JObj [(''tag'', JStr ''prod''),
           (''connections'',
            JObj [(''acme-con-1011121314151617'',
                   JObj [(''password'', JStr ''/spec/enrichment/clients/acme-cid-0001020304050607/envs/acme-prod-08090a0b0c0d0e0f/secrets/dbpw''),
                         (''id'', JStr ''acme-con-1011121314151617'')]),
                  (''acme-con-18191a1b1c1d1e1f'',
                   JObj [(''client_secret'', JStr ''/spec/enrichment/clients/acme-cid-0001020304050607/envs/acme-prod-08090a0b0c0d0e0f/secrets/nope''),
                         (''id'', JStr ''acme-con-18191a1b1c1d1e1f'')])]),
           (''pipelines'',
            JObj [(''acme-pipe-2021222324252627'',
                   JObj [(''connections'',
                          JObj [(''source'', JStr ''acme-con-18191a1b1c1d1e1f''),
                                (''sink'', JStr ''missing'')]),
                         (''id'', JStr ''acme-pipe-2021222324252627'')])]),
           (''id'', JStr ''acme-prod-08090a0b0c0d0e0f'')]"

text \<open>Two worlds whose random sources agree and stand at the same position.\<close>

definition same_rand :: "world \<Rightarrow> world \<Rightarrow> bool" where
  "same_rand a b = (urandom a = urandom b \<and> rand_pos a = rand_pos b)"


text \<open>The secret mapping of an environment, as a list of items; empty when there is none.\<close>

definition secret_items :: "json option \<Rightarrow> dict" where
  "secret_items env_secrets = (case env_secrets of Some (JObj secs) \<Rightarrow> secs | _ \<Rightarrow> [])"

text \<open>What a parameter write asks for, without its outcome.\<close>

definition call_sig :: "ssm_call \<Rightarrow> string \<times> param_value \<times> param_type" where
  "call_sig c = (param_name c, param_value c, param_type c)"

text \<open>A truthy \<^verbatim>\<open>secret\<close> entry that is no dict: \<^verbatim>\<open>env_secrets.items()\<close> raises.\<close>

definition bad_secrets :: "json option \<Rightarrow> bool" where
  "bad_secrets env_secrets =
     (case env_secrets of Some (JObj secs) \<Rightarrow> False | Some v \<Rightarrow> truthy v | None \<Rightarrow> False)"






text \<open>Two worlds that give the same identifiers and the same texts.\<close>

definition same_sources :: "world \<Rightarrow> world \<Rightarrow> bool" where
  "same_sources a b = (same_rand a b \<and> repr_other a = repr_other b)"





section \<open>The identity rewriter\<close>

lemma replace_secret_example:
  "str_replace ''secret.'' '''' ''secret.db.secret.key'' = ''db.key''"
  by (simp add: str_replace.simps)

text \<open>
  C1. A connection field \<^verbatim>\<open>secret.<name>\<close> should become the store path of the secret
  \<^verbatim>\<open><name>\<close>, the prefix stripped once. The code calls \<^verbatim>\<open>replace("secret.", "")\<close>, which
  removes every occurrence: for the secret named \<^verbatim>\<open>db.secret.key\<close> the rewritten field is
  the path of \<^verbatim>\<open>db.key\<close>, which is not the path of \<^verbatim>\<open>db.secret.key\<close>.
\<close>

theorem secret_reference_replace_all:
  "fst (update_config_ids
          [(''connections'', JObj [(''db'', JObj [(''password'', JStr ''secret.db.secret.key'')])])]
          client_tag client_id env_id w) =
     (let new_id = fst (generate_config_id client_tag ''con'' w)
      in Inr ([(''connections'',
                JObj [(new_id,
                       JObj [(''password'', JStr (secret_path client_id env_id ''db.key'')),
                             (''id'', JStr new_id)])])], [], []))
   \<and> secret_path client_id env_id ''db.key'' \<noteq> secret_path client_id env_id ''db.secret.key''"
  by (simp add: update_config_ids_def update_connections_def update_pipelines_def
      connection_step_def update_secret_refs_def update_secret_field_def replace_secret_example
      secret_path_def Let_def split: prod.splits)

section \<open>The download rules\<close>

lemma str_replace_char:
  "str_replace [c] new s = concat (map (\<lambda>x. if x = c then new else [x]) s)"
proof (induction s)
  case Nil
  show ?case by (simp add: str_replace.simps)
next
  case (Cons x xs)
  then show ?case by (subst str_replace.simps) simp
qed

lemma rules_file_name: "CHR ''/'' \<notin> set (rules_output_file p)"
proof -
  have "CHR ''/'' \<notin> set (str_replace [CHR 0x5C] ''_'' (str_replace [CHR ''/''] ''_'' p))"
    unfolding str_replace_char by (auto split: if_splits)
  then show ?thesis by (simp add: rules_output_file_def)
qed

lemma rules_file_written:
  "write_file (rules_output_file p) v w =
   Inr (w\<lparr>files := files w @ [(rules_output_file p, v)]\<rparr>)"
  using rules_file_name[of p] by (simp add: write_file_def)

lemma filter_rules_Inr: "filter_rules k rs = Inr kept \<Longrightarrow> kept = filter (has_pipeline k) rs"
  by (induction rs arbitrary: kept) (auto split: json.splits sum.splits)

lemma filter_rules_dicts:
  "\<forall>r\<in>set rs. is_dict r \<Longrightarrow> filter_rules k rs = Inr (filter (has_pipeline k) rs)"
proof (induction rs)
  case Nil
  then show ?case by simp
next
  case (Cons r rs)
  then obtain d where "r = JObj d" by (cases r) auto
  with Cons show ?case by simp
qed

lemma isinstance_str_iff: "isinstance_str v \<longleftrightarrow> (\<exists>s. v = Some (JStr s))"
  by (cases v rule: isinstance_str.cases) auto

lemma validate_rule_data_iff:
  "validate_rule_data d i \<longleftrightarrow> well_formed_rule (JObj d)"
  by (auto simp: validate_rule_data_def isinstance_str_iff)

lemma validate_rules_fail:
  "\<exists>r\<in>set rs. \<not> well_formed_rule r \<Longrightarrow> \<exists>f. validate_rules rs i = Inl f"
proof (induction rs arbitrary: i)
  case Nil
  then show ?case by simp
next
  case (Cons r rs)
  show ?case
  proof (cases r)
    case (JObj d)
    show ?thesis
    proof (cases "well_formed_rule r")
      case True
      with Cons.prems have "\<exists>r\<in>set rs. \<not> well_formed_rule r" by auto
      then obtain f where "validate_rules rs (i + 1) = Inl f" using Cons.IH by blast
      with JObj True show ?thesis by (simp add: validate_rule_data_iff)
    next
      case False
      with JObj show ?thesis by (simp add: validate_rule_data_iff)
    qed
  qed simp_all
qed

lemma validate_rules_ok:
  "\<forall>r\<in>set rs. well_formed_rule r \<Longrightarrow> validate_rules rs i = Inr (map dict_of rs)"
proof (induction rs arbitrary: i)
  case Nil
  then show ?case by simp
next
  case (Cons r rs)
  then obtain d where "r = JObj d" by (cases r) auto
  with Cons show ?case by (simp add: validate_rule_data_iff del: well_formed_rule.simps)
qed

text \<open>
  C10. When the rules file holds an empty array, or a non-empty pipeline key leaves no
  record, \<^verbatim>\<open>insert_download_rules\<close> (past the connectivity test) returns success with the
  three counts 0 and no batch identifier, and the world is unchanged: no identifier was
  generated and no row was written.
\<close>

theorem empty_rules_nothing_written:
  assumes "input_file inp download_rules_json = Json (JArr rules_data)"
    and "preflight dry_run table_name w = None"
    and "rules_data = [] \<or>
         (\<exists>k. pipeline_key = Some k \<and> k \<noteq> [] \<and> (\<forall>r\<in>set rules_data. is_dict r)
              \<and> filter (has_pipeline k) rules_data = [])"
  shows "insert_download_rules env_id client_id pipeline_id inp table_name region_name dry_run
           out_dir pipeline_key w =
         (DownloadOk \<lparr>res_total_rules = 0, res_successful_inserts = 0, res_failed_inserts = 0,
                      res_rule_guid = None\<rparr>, w)"
  using assms
  by (auto simp: insert_download_rules_def no_rules_def filter_rules_dicts)

text \<open>
  C5. Every record of the filtered list is validated before the first row is written: if
  any of them lacks one of the three required string fields, the invocation returns a
  failure and leaves the world unchanged, so no row is written.
\<close>

theorem invalid_rule_aborts:
  assumes "input_file inp download_rules_json = Json (JArr rules_data)"
    and "\<exists>r\<in>set (kept_rules pipeline_key rules_data). \<not> well_formed_rule r"
  shows "\<exists>f. insert_download_rules env_id client_id pipeline_id inp table_name region_name dry_run
                out_dir pipeline_key w = (DownloadFailed f, w)"
proof -
  have v: "\<exists>f. validate_rules (kept_rules pipeline_key rules_data) 0 = Inl f"
    using assms(2) by (rule validate_rules_fail)
  have ne: "kept_rules pipeline_key rules_data \<noteq> []" using assms(2) by auto
  show ?thesis
  proof (cases "key_given pipeline_key")
    case True
    then obtain k where k: "pipeline_key = Some k" "k \<noteq> []" by (cases pipeline_key) auto
    then have kr: "kept_rules pipeline_key rules_data = filter (has_pipeline k) rules_data"
      by (simp add: kept_rules_def)
    show ?thesis
      using assms(1) v ne k kr
      by (auto simp: insert_download_rules_def write_rules_def
          split: option.splits sum.splits dest!: filter_rules_Inr)
  next
    case False
    then have kr: "kept_rules pipeline_key rules_data = rules_data"
      by (cases pipeline_key) (auto simp: kept_rules_def)
    show ?thesis
      using assms(1) v ne False kr
      by (auto simp: insert_download_rules_def write_rules_def split: option.splits)
  qed
qed

lemma rules_loop_live:
  "rules_loop False tn g e c p rules i acc w = (acc', w') \<Longrightarrow>
   map ddb_item (ddb_calls w') =
     map ddb_item (ddb_calls w) @
     map (\<lambda>n. convert_to_dynamodb_item (rules ! n) (generate_rule_id g (i + n + 1)) e c p)
       [0 ..< length rules]
   \<and> files w' = files w \<and> uuid_pos w' = uuid_pos w"
proof (induction rules arbitrary: i acc w)
  case Nil
  then show ?case by simp
next
  case (Cons r rs)
  obtain s f items where acc: "acc = (s, f, items)" by (cases acc) auto
  obtain ok w1 where ins:
    "insert_item_to_dynamodb tn
       (convert_to_dynamodb_item r (generate_rule_id g (i + 1)) e c p) w = (ok, w1)"
    by fastforce
  then have w1: "ddb_calls w1 = ddb_calls w @
      [\<lparr>ddb_table = tn, ddb_item = convert_to_dynamodb_item r (generate_rule_id g (i + 1)) e c p,
        ddb_ok_result = ok\<rparr>]" "files w1 = files w" "uuid_pos w1 = uuid_pos w"
    by (auto simp: insert_item_to_dynamodb_def Let_def)
  from Cons.prems acc ins obtain acc1 where
    "rules_loop False tn g e c p rs (i + 1) acc1 w1 = (acc', w')"
    by (cases ok) (auto simp: Let_def)
  from Cons.IH[OF this] w1 show ?case
    by (simp add: map_upt_Suc del: upt_Suc)
qed

lemma rules_loop_dry:
  "rules_loop True tn g e c p rules i (s, f, items) w =
     ((s + length rules, f,
       items @ map (\<lambda>n. readable_item
                           (convert_to_dynamodb_item (rules ! n) (generate_rule_id g (i + n + 1)) e c p))
                 [0 ..< length rules]), w)"
proof (induction rules arbitrary: i s items)
  case Nil
  then show ?case by simp
next
  case (Cons r rs)
  show ?case
    by (simp add: Cons.IH Let_def map_upt_Suc del: upt_Suc)
qed

text \<open>
  C6, as amended. With a non-empty pipeline key exactly the records whose \<^verbatim>\<open>pipeline\<close>
  field equals the key are kept; with no key or the empty key all records are kept. The
  \<open>n\<close>-th kept record (counting from 1) is written under the identifier
  \<^verbatim>\<open>{batch_guid}#rule_{n}\<close>, and the one \<^verbatim>\<open>batch_guid\<close> of the invocation is in the result.
\<close>

theorem filtered_rules_get_batch_ids:
  assumes "input_file inp download_rules_json = Json (JArr rules_data)"
    and "preflight dry_run table_name w = None"
    and "key_given pipeline_key \<longrightarrow> (\<forall>r\<in>set rules_data. is_dict r)"
    and "kept = kept_rules pipeline_key rules_data"
    and "kept \<noteq> []"
    and "\<forall>r\<in>set kept. well_formed_rule r"
    and "guid = uuid4_src w (uuid_pos w)"
    and "items = map (\<lambda>n. convert_to_dynamodb_item (dict_of (kept ! n))
                              (guid @ ''#rule_'' @ str_nat (n + 1)) env_id client_id pipeline_id)
                   [0 ..< length kept]"
  shows "\<exists>r w'. insert_download_rules env_id client_id pipeline_id inp table_name region_name
                    dry_run out_dir pipeline_key w = (DownloadOk r, w')
           \<and> res_rule_guid r = Some guid
           \<and> res_total_rules r = length kept
           \<and> (\<not> dry_run \<longrightarrow> map ddb_item (ddb_calls w') = map ddb_item (ddb_calls w) @ items)
           \<and> (dry_run \<and> out_dir \<noteq> None \<longrightarrow>
                (\<exists>name. files w' = files w @ [(name, JArr (map readable_item items))]))"
proof -
  have rd: "rules_data \<noteq> []" using assms(4,5) by (auto simp: kept_rules_def split: option.splits if_splits)
  have val: "validate_rules kept 0 = Inr (map dict_of kept)"
    using assms(6) by (rule validate_rules_ok)
  have step: "insert_download_rules env_id client_id pipeline_id inp table_name region_name
                dry_run out_dir pipeline_key w =
              write_rules env_id client_id pipeline_id table_name dry_run out_dir kept w"
  proof (cases "key_given pipeline_key")
    case True
    then obtain k where k: "pipeline_key = Some k" "k \<noteq> []" by (cases pipeline_key) auto
    with assms(3) have "filter_rules k rules_data = Inr (filter (has_pipeline k) rules_data)"
      by (simp add: filter_rules_dicts)
    moreover have "kept = filter (has_pipeline k) rules_data"
      using k assms(4) by (simp add: kept_rules_def)
    ultimately show ?thesis
      using assms(1,2,5) rd k by (simp add: insert_download_rules_def)
  next
    case False
    then have "kept = rules_data" using assms(4)
      by (cases pipeline_key) (auto simp: kept_rules_def)
    then show ?thesis
      using assms(1,2) rd False by (simp add: insert_download_rules_def)
  qed
  have its: "items = map (\<lambda>n. convert_to_dynamodb_item (map dict_of kept ! n)
                              (generate_rule_id guid (0 + n + 1)) env_id client_id pipeline_id)
                   [0 ..< length (map dict_of kept)]"
    using assms(8) by (simp add: generate_rule_id_def)
  let ?w1 = "w\<lparr>uuid_pos := uuid_pos w + 1\<rparr>"
  show ?thesis
  proof (cases dry_run)
    case True
    have loop: "rules_loop True table_name guid env_id client_id pipeline_id (map dict_of kept) 0
                  (0, 0, []) ?w1 = ((0 + length (map dict_of kept), 0, [] @ map readable_item items), ?w1)"
      unfolding its by (simp only: rules_loop_dry map_map comp_def)
    have ne: "map readable_item items \<noteq> []" using assms(5,8) by simp
    show ?thesis
      unfolding step using True val loop ne assms(7)
      by (auto simp: write_rules_def uuid4_def rules_file_written Let_def)
  next
    case False
    obtain acc' w2 where loop:
      "rules_loop False table_name guid env_id client_id pipeline_id (map dict_of kept) 0
         (0, 0, []) ?w1 = (acc', w2)" by fastforce
    from rules_loop_live[OF this] have "map ddb_item (ddb_calls w2) = map ddb_item (ddb_calls w) @ items"
      unfolding its by simp
    then show ?thesis
      unfolding step using False val loop assms(7)
      by (auto simp: write_rules_def uuid4_def Let_def split: prod.splits)
  qed
qed

theorem empty_rules_nothing_written_witness:
  "filter (has_pipeline ''p2'') [rule_a] = [] \<and>
   insert_download_rules ''env'' ''cli'' ''pipe'' (rules_dir (JArr [rule_a])) ''t'' ''us-east-1''
     False None (Some ''p2'') example_world =
   (DownloadOk \<lparr>res_total_rules = 0, res_successful_inserts = 0, res_failed_inserts = 0,
                res_rule_guid = None\<rparr>, example_world)"
  using empty_rules_nothing_written [where inp = "rules_dir (JArr [rule_a])"
      and rules_data = "[rule_a]" and dry_run = False and table_name = "''t''"
      and w = example_world and pipeline_key = "Some ''p2''"]
  by (simp add: input_file_def rules_dir_def preflight_def example_world_def rule_a_def)

theorem invalid_rule_aborts_witness:
  "\<not> well_formed_rule rule_no_values \<and>
   (\<exists>f. insert_download_rules ''env'' ''cli'' ''pipe'' (rules_dir (JArr [rule_a, rule_no_values]))
          ''t'' ''us-east-1'' False None None example_world = (DownloadFailed f, example_world))"
  using invalid_rule_aborts [where inp = "rules_dir (JArr [rule_a, rule_no_values])"
      and rules_data = "[rule_a, rule_no_values]" and pipeline_key = None]
  by (simp add: input_file_def rules_dir_def kept_rules_def rule_no_values_def)

text \<open>
  C6 as stated fails for the key \<^verbatim>\<open>""\<close>: \<^verbatim>\<open>if pipeline_key:\<close> takes it for no filter, and a
  record of pipeline \<^verbatim>\<open>p1\<close> is written although its \<^verbatim>\<open>pipeline\<close> field is not the key.
\<close>

theorem empty_pipeline_key_keeps_all:
  "filter (has_pipeline '''') [rule_a] = [] \<and>
   map ddb_item (ddb_calls (snd (insert_download_rules ''env'' ''cli'' ''pipe''
     (rules_dir (JArr [rule_a])) ''t'' ''us-east-1'' False None (Some '''') example_world))) =
   [convert_to_dynamodb_item (dict_of rule_a) ''guid-0#rule_1'' ''env'' ''cli'' ''pipe'']"
  by (simp add: insert_download_rules_def input_file_def rules_dir_def preflight_def
      example_world_def rule_a_def write_rules_def validate_rule_data_def uuid4_def
      insert_item_to_dynamodb_def generate_rule_id_def str_nat.simps digit_char_def Let_def)

theorem filtered_rules_get_batch_ids_witness:
  "kept_rules (Some ''p1'') [rule_a, rule_b, rule_a] = [rule_a, rule_a] \<and>
   (\<exists>r w'. insert_download_rules ''env'' ''cli'' ''pipe'' (rules_dir (JArr [rule_a, rule_b, rule_a]))
             ''t'' ''us-east-1'' False None (Some ''p1'') example_world = (DownloadOk r, w')
      \<and> res_rule_guid r = Some ''guid-0'' \<and> res_total_rules r = 2
      \<and> map ddb_item (ddb_calls w') =
          [convert_to_dynamodb_item (dict_of rule_a) ''guid-0#rule_1'' ''env'' ''cli'' ''pipe'',
           convert_to_dynamodb_item (dict_of rule_a) ''guid-0#rule_2'' ''env'' ''cli'' ''pipe''])"
proof -
  have k: "kept_rules (Some ''p1'') [rule_a, rule_b, rule_a] = [rule_a, rule_a]"
    by (simp add: kept_rules_def rule_a_def rule_b_def)
  have g: "''guid-0'' = uuid4_src example_world (uuid_pos example_world)"
    by (simp add: example_world_def str_nat.simps digit_char_def)
  have n: "[0 ..< length [rule_a, rule_a]] = [0, 1]" by (simp add: upt_rec)
  show ?thesis
    using filtered_rules_get_batch_ids [where inp = "rules_dir (JArr [rule_a, rule_b, rule_a])"
        and rules_data = "[rule_a, rule_b, rule_a]" and dry_run = False and table_name = "''t''"
        and w = example_world and pipeline_key = "Some ''p1''" and kept = "[rule_a, rule_a]"
        and guid = "''guid-0''" and env_id = "''env''" and client_id = "''cli''"
        and pipeline_id = "''pipe''" and region_name = "''us-east-1''" and out_dir = None,
        OF _ _ _ k [symmetric] _ _ g refl]
    unfolding n
    by (simp add: input_file_def rules_dir_def preflight_def k str_nat.simps digit_char_def)
      (auto simp add: example_world_def rule_a_def rule_b_def)
qed

section \<open>The enrichment rules\<close>

lemma digit_cases:
  assumes "k < (10::nat)"
  shows "k = 0 \<or> k = 1 \<or> k = 2 \<or> k = 3 \<or> k = 4 \<or> k = 5 \<or> k = 6 \<or> k = 7 \<or> k = 8 \<or> k = 9"
  using assms by arith

lemma digit_char_props:
  assumes "k < 10"
  shows "is_digit (digit_char k)" "digit_val (digit_char k) = k" "\<not> is_space (digit_char k)"
    "digit_char k \<noteq> CHR ''-''" "digit_char k \<noteq> CHR ''+''"
  using digit_cases[OF assms]
  by (auto simp: digit_char_def is_digit_def digit_val_def is_space_def)

lemma str_nat_digits: "str_nat n \<noteq> [] \<and> list_all is_digit (str_nat n)"
proof (induction n rule: str_nat.induct)
  case (1 n)
  show ?case
  proof (cases "n < 10")
    case True
    then show ?thesis by (subst (1 2) str_nat.simps) (simp add: digit_char_props)
  next
    case False
    with 1 show ?thesis by (subst (1 2) str_nat.simps) (simp add: digit_char_props)
  qed
qed

lemma parse_digits_all:
  "list_all is_digit ds \<Longrightarrow>
   parse_digits ds acc = Some (foldl (\<lambda>a c. 10 * a + digit_val c) acc ds)"
  by (induction ds acc rule: parse_digits.induct) auto

lemma foldl_str_nat: "foldl (\<lambda>a c. 10 * a + digit_val c) 0 (str_nat n) = n"
proof (induction n rule: str_nat.induct)
  case (1 n)
  show ?case
  proof (cases "n < 10")
    case True
    then show ?thesis by (subst str_nat.simps) (simp add: digit_char_props)
  next
    case False
    with 1 show ?thesis by (subst str_nat.simps) (simp add: digit_char_props)
  qed
qed

lemma parse_nat_str_nat: "parse_nat (str_nat n) = Some n"
proof -
  obtain c cs where cs: "str_nat n = c # cs" using str_nat_digits[of n] by (cases "str_nat n") auto
  with str_nat_digits[of n] have d: "is_digit c" "list_all is_digit cs" by auto
  have "foldl (\<lambda>a c. 10 * a + digit_val c) (digit_val c) cs = n"
    using foldl_str_nat[of n] cs by simp
  with d cs show ?thesis by (simp add: parse_nat_def parse_digits_all)
qed

lemma is_digit_not_space: "is_digit c \<Longrightarrow> \<not> is_space c"
  by (auto simp: is_digit_def is_space_def)

lemma is_digit_not_sign: "is_digit c \<Longrightarrow> c \<noteq> CHR ''-'' \<and> c \<noteq> CHR ''+''"
  by (auto simp: is_digit_def)

lemma strip_id: "s \<noteq> [] \<Longrightarrow> \<not> is_space (hd s) \<Longrightarrow> \<not> is_space (last s) \<Longrightarrow> strip s = s"
proof -
  assume a: "s \<noteq> []" "\<not> is_space (hd s)" "\<not> is_space (last s)"
  then have "dropWhile is_space s = s" by (cases s) auto
  moreover have "dropWhile is_space (rev s) = rev s"
    using a by (cases "rev s") (auto simp: last_rev hd_rev)
  ultimately show ?thesis by (simp add: strip_def)
qed

lemma str_nat_ends: "\<not> is_space (hd (str_nat n))" "\<not> is_space (last (str_nat n))"
  using str_nat_digits[of n]
  by (auto simp: list_all_iff intro!: is_digit_not_space)

lemma int_ascii_str_int: "int_ascii (str_int i) = Some i"
proof (cases "i < 0")
  case True
  have ne: "str_nat (nat (- i)) \<noteq> []" using str_nat_digits by blast
  have "strip (CHR ''-'' # str_nat (nat (- i))) = CHR ''-'' # str_nat (nat (- i))"
    using ne str_nat_ends(2)[of "nat (- i)"] by (intro strip_id) (auto simp: is_space_def)
  with True show ?thesis by (simp add: int_ascii_def str_int_def parse_nat_str_nat)
next
  case False
  obtain c cs where cs: "str_nat (nat i) = c # cs"
    using str_nat_digits[of "nat i"] by (cases "str_nat (nat i)") auto
  with str_nat_digits[of "nat i"] have d: "is_digit c" by auto
  have "strip (str_nat (nat i)) = str_nat (nat i)"
    using str_nat_digits[of "nat i"] str_nat_ends[of "nat i"] by (intro strip_id) auto
  with False cs d parse_nat_str_nat[of "nat i"] is_digit_not_sign[OF d]
  show ?thesis by (simp add: int_ascii_def str_int_def)
qed

lemma is_digit_ascii: "is_digit c \<Longrightarrow> (of_char c :: nat) < 128"
  by (auto simp: is_digit_def)

lemma is_ascii_str_int: "is_ascii (str_int i)"
proof -
  have "list_all (\<lambda>c. (of_char c :: nat) < 128) (str_nat n)" for n
    using str_nat_digits[of n] by (auto simp: list_all_iff dest: is_digit_ascii)
  then show ?thesis by (simp add: is_ascii_def str_int_def)
qed

lemma int_of_str_str_int:
  "length (str_int i) \<le> 640 \<Longrightarrow> int_of_str w (str_int i) = Inr i"
  by (simp add: int_of_str_def is_ascii_str_int int_ascii_str_int)

lemma int_of_str_control: "py_int w (JStr [CHR ''4'', CHR 0x1F]) = None"
  by (simp add: int_of_str_def is_ascii_def int_ascii_def strip_def is_space_def parse_nat_def
      is_digit_def)












section \<open>The orchestrator\<close>

text \<open>
  C2. A live run with a failed write should end with a false success flag and a non-zero
  exit status. In the run below the environment parameter, the download rule row and the
  enrichment rule row all fail to be written, yet \<^verbatim>\<open>main\<close> exits with status 0,
  \<^verbatim>\<open>create_client_config\<close> reports success, and \<^verbatim>\<open>insert_download_rules\<close> reports success
  with one failed insert.
\<close>

theorem failed_writes_exit_zero:
  "fst (main live_args example_dir failing_world) = 0
   \<and> map param_ok (ssm_calls (snd (main live_args example_dir failing_world))) = [True, False]
   \<and> map ddb_ok_result (ddb_calls (snd (main live_args example_dir failing_world))) = [False, False]
   \<and> config_success (fst (create_client_config example_dir ''us-east-1'' False None failing_world))
   \<and> fst (insert_download_rules ''acme-prod-08090a0b0c0d0e0f'' ''acme-cid-0001020304050607''
             ''acme-pipe-1011121314151617'' example_dir ''spec-download-rule'' ''us-east-1'' False
             None (Some ''p1'')
             (snd (create_client_config example_dir ''us-east-1'' False None failing_world))) =
       DownloadOk \<lparr>res_total_rules = 1, res_successful_inserts = 0, res_failed_inserts = 1,
                    res_rule_guid = Some ''guid-0''\<rparr>"
  by (intro conjI; code_simp)

section \<open>References between connections and pipelines\<close>

lemma generate_config_id_eq:
  "generate_config_id client_tag label w = (nth_id w client_tag label 0, advance w 1)"
  by (simp add: generate_config_id_def generate_random_hex_def token_hex_def nth_id_def
      random_hex_at_def advance_def)

lemma advance_simps [simp]:
  "advance w 0 = w"
  "advance (advance w a) b = advance w (a + b)"
  "rand_pos (advance w a) = rand_pos w + 8 * a"
  "urandom (advance w a) = urandom w"
  "ssm_calls (advance w a) = ssm_calls w"
  "ddb_calls (advance w a) = ddb_calls w"
  "files (advance w a) = files w"
  "uuid_pos (advance w a) = uuid_pos w"
  "ssm_ok (advance w a) = ssm_ok w"
  by (simp_all add: advance_def algebra_simps)

lemma nth_id_advance [simp]:
  "nth_id (advance w a) client_tag label k = nth_id w client_tag label (a + k)"
  by (simp add: nth_id_def random_hex_at_def advance_def algebra_simps)

lemma hex_digit_mem: "n < 16 \<Longrightarrow> hex_digit n \<in> set ''0123456789abcdef''"
  unfolding hex_digit_def by (rule nth_mem) simp

lemma hex_byte_props: "length (hex_byte b) = 2" "set (hex_byte b) \<subseteq> set ''0123456789abcdef''"
proof -
  show "length (hex_byte b) = 2" by (simp add: hex_byte_def)
  have "unat b < 256" using unsigned_less[of b] by simp
  then have "unat b div 16 < 16" "unat b mod 16 < 16" by simp_all
  then show "set (hex_byte b) \<subseteq> set ''0123456789abcdef''"
    using hex_digit_mem unfolding hex_byte_def by (metis empty_set empty_subsetI insert_subset list.simps(15))
qed

lemma random_hex_at_props:
  "length (random_hex_at w pos) = 16" "set (random_hex_at w pos) \<subseteq> set ''0123456789abcdef''"
proof -
  show "length (random_hex_at w pos) = 16"
    by (simp add: random_hex_at_def length_concat comp_def hex_byte_props(1) sum_list_triv)
  show "set (random_hex_at w pos) \<subseteq> set ''0123456789abcdef''"
    unfolding random_hex_at_def using hex_byte_props(2) by (auto simp del: set_simps)
qed

lemma connection_step_eq:
  "connection_step tag cid eid conn w =
     (case conn of
        JObj c \<Rightarrow>
          (case update_secret_refs cid eid (AList.update ''id'' (JStr (nth_id w tag ''con'' 0)) c) of
             Inl e \<Rightarrow> Inl e
           | Inr c' \<Rightarrow> Inr (nth_id w tag ''con'' 0, c'))
      | _ \<Rightarrow> Inl TypeError, advance w 1)"
  by (simp add: connection_step_def generate_config_id_eq split: json.splits sum.splits)

lemma connections_loop_Cons_Inr:
  assumes "connections_loop tag cid eid ((ck, conn) # rest) nc km w = (Inr r, w')"
  obtains c c' where "conn = JObj c"
    and "update_secret_refs cid eid (AList.update ''id'' (JStr (nth_id w tag ''con'' 0)) c) = Inr c'"
    and "connections_loop tag cid eid rest (AList.update (nth_id w tag ''con'' 0) (JObj c') nc)
           (AList.update ck (nth_id w tag ''con'' 0) km) (advance w 1) = (Inr r, w')"
  using assms by (auto simp: connection_step_eq split: json.splits sum.splits)

lemma connections_loop_world:
  "connections_loop tag cid eid items nc km w = (Inr r, w') \<Longrightarrow> w' = advance w (length items)"
proof (induction items arbitrary: nc km w)
  case Nil
  then show ?case by simp
next
  case (Cons a items)
  obtain ck conn where a: "a = (ck, conn)" by (cases a) auto
  from Cons.prems[unfolded a] show ?case
  proof (rule connections_loop_Cons_Inr)
    fix c c'
    assume "connections_loop tag cid eid items (AList.update (nth_id w tag ''con'' 0) (JObj c') nc)
              (AList.update ck (nth_id w tag ''con'' 0) km) (advance w 1) = (Inr r, w')"
    from Cons.IH[OF this] show ?thesis by simp
  qed
qed

lemma connections_loop_key_map_other:
  "connections_loop tag cid eid items nc km w = (Inr (nc', km'), w') \<Longrightarrow>
   k \<notin> fst ` set items \<Longrightarrow> map_of km' k = map_of km k"
proof (induction items arbitrary: nc km w)
  case Nil
  then show ?case by simp
next
  case (Cons a items)
  obtain ck conn where a: "a = (ck, conn)" by (cases a) auto
  from Cons.prems(1)[unfolded a] show ?case
  proof (rule connections_loop_Cons_Inr)
    fix c c'
    assume "connections_loop tag cid eid items (AList.update (nth_id w tag ''con'' 0) (JObj c') nc)
              (AList.update ck (nth_id w tag ''con'' 0) km) (advance w 1) = (Inr (nc', km'), w')"
    from Cons.IH[OF this] Cons.prems(2) a show ?thesis by (simp add: update_conv')
  qed
qed

lemma connections_loop_key_map:
  "connections_loop tag cid eid items nc km w = (Inr (nc', km'), w') \<Longrightarrow>
   distinct (map fst items) \<Longrightarrow> i < length items \<Longrightarrow>
   map_of km' (fst (items ! i)) = Some (nth_id w tag ''con'' i)"
proof (induction items arbitrary: nc km w i)
  case Nil
  then show ?case by simp
next
  case (Cons a items)
  obtain ck conn where a: "a = (ck, conn)" by (cases a) auto
  from Cons.prems(1)[unfolded a] show ?case
  proof (rule connections_loop_Cons_Inr)
    fix c c'
    assume loop: "connections_loop tag cid eid items
              (AList.update (nth_id w tag ''con'' 0) (JObj c') nc)
              (AList.update ck (nth_id w tag ''con'' 0) km) (advance w 1) = (Inr (nc', km'), w')"
    show ?thesis
    proof (cases i)
      case 0
      from Cons.prems(2) a have "ck \<notin> fst ` set items" by auto
      from connections_loop_key_map_other[OF loop this] 0 a show ?thesis
        by (simp add: update_conv')
    next
      case (Suc i')
      with Cons.prems have "distinct (map fst items)" "i' < length items" by auto
      from Cons.IH[OF loop this] Suc show ?thesis by simp
    qed
  qed
qed

lemma connections_loop_entries_other:
  "connections_loop tag cid eid items nc km w = (Inr (nc', km'), w') \<Longrightarrow>
   \<forall>i<length items. nth_id w tag ''con'' i \<noteq> k \<Longrightarrow> map_of nc' k = map_of nc k"
proof (induction items arbitrary: nc km w)
  case Nil
  then show ?case by simp
next
  case (Cons a items)
  obtain ck conn where a: "a = (ck, conn)" by (cases a) auto
  from Cons.prems(1)[unfolded a] show ?case
  proof (rule connections_loop_Cons_Inr)
    fix c c'
    assume loop: "connections_loop tag cid eid items
              (AList.update (nth_id w tag ''con'' 0) (JObj c') nc)
              (AList.update ck (nth_id w tag ''con'' 0) km) (advance w 1) = (Inr (nc', km'), w')"
    have "\<forall>i<length items. nth_id (advance w 1) tag ''con'' i \<noteq> k"
      using Cons.prems(2) by auto
    from Cons.IH[OF loop this] Cons.prems(2) show ?thesis
      by (auto simp: update_conv')
  qed
qed

lemma connections_loop_entry:
  "connections_loop tag cid eid items nc km w = (Inr (nc', km'), w') \<Longrightarrow>
   i < length items \<Longrightarrow>
   \<forall>i'<length items. i < i' \<longrightarrow> nth_id w tag ''con'' i' \<noteq> nth_id w tag ''con'' i \<Longrightarrow>
   \<exists>c c'. snd (items ! i) = JObj c
     \<and> update_secret_refs cid eid (AList.update ''id'' (JStr (nth_id w tag ''con'' i)) c) = Inr c'
     \<and> map_of nc' (nth_id w tag ''con'' i) = Some (JObj c')"
proof (induction items arbitrary: nc km w i)
  case Nil
  then show ?case by simp
next
  case (Cons a items)
  obtain ck conn where a: "a = (ck, conn)" by (cases a) auto
  from Cons.prems(1)[unfolded a] show ?case
  proof (rule connections_loop_Cons_Inr)
    fix c c'
    assume c: "conn = JObj c"
      "update_secret_refs cid eid (AList.update ''id'' (JStr (nth_id w tag ''con'' 0)) c) = Inr c'"
      and loop: "connections_loop tag cid eid items
              (AList.update (nth_id w tag ''con'' 0) (JObj c') nc)
              (AList.update ck (nth_id w tag ''con'' 0) km) (advance w 1) = (Inr (nc', km'), w')"
    show ?thesis
    proof (cases i)
      case 0
      have "\<forall>i<length items. nth_id (advance w 1) tag ''con'' i \<noteq> nth_id w tag ''con'' 0"
        using Cons.prems(3) 0 by auto
      from connections_loop_entries_other[OF loop this] 0 a c show ?thesis
        by (simp add: update_conv')
    next
      case (Suc i')
      with Cons.prems have "i' < length items"
        "\<forall>j<length items. i' < j \<longrightarrow>
           nth_id (advance w 1) tag ''con'' j \<noteq> nth_id (advance w 1) tag ''con'' i'"
        by auto
      from Cons.IH[OF loop this] Suc show ?thesis by simp
    qed
  qed
qed

lemma update_conn_refs_Inr:
  "update_conn_refs km pcs = Inr pcs' \<Longrightarrow>
   pcs' = map (\<lambda>(t, v). (t, resolve_conn_ref km v)) pcs"
  by (induction pcs arbitrary: pcs') (auto split: if_splits sum.splits)

lemma update_conn_refs_total:
  "list_all (\<lambda>tv. hashable (snd tv)) pcs \<Longrightarrow> \<exists>pcs'. update_conn_refs km pcs = Inr pcs'"
  by (induction pcs) auto

lemma map_of_conn_refs:
  "update_conn_refs km pcs = Inr pcs' \<Longrightarrow>
   map_of pcs' t = map_option (resolve_conn_ref km) (map_of pcs t)"
  by (drule update_conn_refs_Inr) (simp add: map_of_map)

lemma pipeline_step_world: "snd (pipeline_step tag km pipe w) = advance w 1"
  by (simp add: pipeline_step_def generate_config_id_eq Let_def
      split: json.splits option.splits sum.splits)

lemma pipeline_step_Inr:
  assumes "pipeline_step tag km pipe w = (Inr (pid, p'), w1)"
  shows "pid = nth_id w tag ''pipe'' 0" "w1 = advance w 1" "\<exists>p. pipe = JObj p"
    "map_of p' ''id'' = Some (JStr pid)"
    "pipe = JObj p \<Longrightarrow> map_of p ''connections'' = Some (JObj pcs) \<Longrightarrow>
     \<exists>pcs'. map_of p' ''connections'' = Some (JObj pcs')
        \<and> (\<forall>t. map_of pcs' t = map_option (resolve_conn_ref km) (map_of pcs t))"
proof -
  from assms show "pid = nth_id w tag ''pipe'' 0" "w1 = advance w 1" "\<exists>p. pipe = JObj p"
    "map_of p' ''id'' = Some (JStr pid)"
    by (auto simp: pipeline_step_def generate_config_id_eq Let_def update_conv'
        split: json.splits option.splits sum.splits if_splits)
  assume "pipe = JObj p" "map_of p ''connections'' = Some (JObj pcs)"
  with assms show "\<exists>pcs'. map_of p' ''connections'' = Some (JObj pcs')
        \<and> (\<forall>t. map_of pcs' t = map_option (resolve_conn_ref km) (map_of pcs t))"
    by (auto simp: pipeline_step_def generate_config_id_eq Let_def update_conv' map_of_conn_refs
        split: sum.splits if_splits)
qed

lemma pipelines_loop_Cons_Inr:
  assumes "pipelines_loop tag km ((pk, pipe) # rest) np pids pm w = (Inr r, w')"
  obtains p' where "pipeline_step tag km pipe w = (Inr (nth_id w tag ''pipe'' 0, p'), advance w 1)"
    and "pipelines_loop tag km rest (AList.update (nth_id w tag ''pipe'' 0) (JObj p') np)
           (pids @ [nth_id w tag ''pipe'' 0]) (AList.update pk (nth_id w tag ''pipe'' 0) pm)
           (advance w 1) = (Inr r, w')"
proof -
  obtain res w1 where st: "pipeline_step tag km pipe w = (res, w1)" by fastforce
  with assms obtain pid p' where res: "res = Inr (pid, p')" by (cases res) auto
  from pipeline_step_Inr(1,2)[OF st[unfolded res]] st res assms that show ?thesis by auto
qed

lemma pipelines_loop_ids:
  "pipelines_loop tag km items np pids pm w = (Inr (np', pids', pm'), w') \<Longrightarrow>
   pids' = pids @ map (nth_id w tag ''pipe'') [0 ..< length items] \<and> w' = advance w (length items)"
proof (induction items arbitrary: np pids pm w)
  case Nil
  then show ?case by simp
next
  case (Cons a items)
  obtain pk pipe where a: "a = (pk, pipe)" by (cases a) auto
  from Cons.prems[unfolded a] show ?case
  proof (rule pipelines_loop_Cons_Inr)
    fix p'
    assume "pipelines_loop tag km items (AList.update (nth_id w tag ''pipe'' 0) (JObj p') np)
           (pids @ [nth_id w tag ''pipe'' 0]) (AList.update pk (nth_id w tag ''pipe'' 0) pm)
           (advance w 1) = (Inr (np', pids', pm'), w')"
    from Cons.IH[OF this] show ?thesis
      by (simp add: map_upt_Suc del: upt_Suc)
  qed
qed

lemma pipelines_loop_pipe_map_other:
  "pipelines_loop tag km items np pids pm w = (Inr (np', pids', pm'), w') \<Longrightarrow>
   k \<notin> fst ` set items \<Longrightarrow> map_of pm' k = map_of pm k"
proof (induction items arbitrary: np pids pm w)
  case Nil
  then show ?case by simp
next
  case (Cons a items)
  obtain pk pipe where a: "a = (pk, pipe)" by (cases a) auto
  from Cons.prems(1)[unfolded a] show ?case
  proof (rule pipelines_loop_Cons_Inr)
    fix p'
    assume "pipelines_loop tag km items (AList.update (nth_id w tag ''pipe'' 0) (JObj p') np)
           (pids @ [nth_id w tag ''pipe'' 0]) (AList.update pk (nth_id w tag ''pipe'' 0) pm)
           (advance w 1) = (Inr (np', pids', pm'), w')"
    from Cons.IH[OF this] Cons.prems(2) a show ?thesis by (simp add: update_conv')
  qed
qed

lemma pipelines_loop_pipe_map:
  "pipelines_loop tag km items np pids pm w = (Inr (np', pids', pm'), w') \<Longrightarrow>
   distinct (map fst items) \<Longrightarrow> j < length items \<Longrightarrow>
   map_of pm' (fst (items ! j)) = Some (nth_id w tag ''pipe'' j)"
proof (induction items arbitrary: np pids pm w j)
  case Nil
  then show ?case by simp
next
  case (Cons a items)
  obtain pk pipe where a: "a = (pk, pipe)" by (cases a) auto
  from Cons.prems(1)[unfolded a] show ?case
  proof (rule pipelines_loop_Cons_Inr)
    fix p'
    assume loop: "pipelines_loop tag km items (AList.update (nth_id w tag ''pipe'' 0) (JObj p') np)
           (pids @ [nth_id w tag ''pipe'' 0]) (AList.update pk (nth_id w tag ''pipe'' 0) pm)
           (advance w 1) = (Inr (np', pids', pm'), w')"
    show ?thesis
    proof (cases j)
      case 0
      from Cons.prems(2) a have "pk \<notin> fst ` set items" by auto
      from pipelines_loop_pipe_map_other[OF loop this] 0 a show ?thesis
        by (simp add: update_conv')
    next
      case (Suc j')
      with Cons.prems have "distinct (map fst items)" "j' < length items" by auto
      from Cons.IH[OF loop this] Suc show ?thesis by simp
    qed
  qed
qed

lemma pipelines_loop_entries_other:
  "pipelines_loop tag km items np pids pm w = (Inr (np', pids', pm'), w') \<Longrightarrow>
   \<forall>j<length items. nth_id w tag ''pipe'' j \<noteq> k \<Longrightarrow> map_of np' k = map_of np k"
proof (induction items arbitrary: np pids pm w)
  case Nil
  then show ?case by simp
next
  case (Cons a items)
  obtain pk pipe where a: "a = (pk, pipe)" by (cases a) auto
  from Cons.prems(1)[unfolded a] show ?case
  proof (rule pipelines_loop_Cons_Inr)
    fix p'
    assume loop: "pipelines_loop tag km items (AList.update (nth_id w tag ''pipe'' 0) (JObj p') np)
           (pids @ [nth_id w tag ''pipe'' 0]) (AList.update pk (nth_id w tag ''pipe'' 0) pm)
           (advance w 1) = (Inr (np', pids', pm'), w')"
    have "\<forall>j<length items. nth_id (advance w 1) tag ''pipe'' j \<noteq> k"
      using Cons.prems(2) by auto
    from Cons.IH[OF loop this] Cons.prems(2) show ?thesis
      by (auto simp: update_conv')
  qed
qed

lemma pipelines_loop_entry:
  "pipelines_loop tag km items np pids pm w = (Inr (np', pids', pm'), w') \<Longrightarrow>
   j < length items \<Longrightarrow>
   \<forall>j'<length items. j < j' \<longrightarrow> nth_id w tag ''pipe'' j' \<noteq> nth_id w tag ''pipe'' j \<Longrightarrow>
   \<exists>p'. pipeline_step tag km (snd (items ! j)) (advance w j) =
           (Inr (nth_id w tag ''pipe'' j, p'), advance w (Suc j))
     \<and> map_of np' (nth_id w tag ''pipe'' j) = Some (JObj p')"
proof (induction items arbitrary: np pids pm w j)
  case Nil
  then show ?case by simp
next
  case (Cons a items)
  obtain pk pipe where a: "a = (pk, pipe)" by (cases a) auto
  from Cons.prems(1)[unfolded a] show ?case
  proof (rule pipelines_loop_Cons_Inr)
    fix p'
    assume st: "pipeline_step tag km pipe w = (Inr (nth_id w tag ''pipe'' 0, p'), advance w 1)"
      and loop: "pipelines_loop tag km items (AList.update (nth_id w tag ''pipe'' 0) (JObj p') np)
           (pids @ [nth_id w tag ''pipe'' 0]) (AList.update pk (nth_id w tag ''pipe'' 0) pm)
           (advance w 1) = (Inr (np', pids', pm'), w')"
    show ?thesis
    proof (cases j)
      case 0
      have "\<forall>j<length items. nth_id (advance w 1) tag ''pipe'' j \<noteq> nth_id w tag ''pipe'' 0"
        using Cons.prems(3) 0 by auto
      from pipelines_loop_entries_other[OF loop this] 0 a st show ?thesis
        by (simp add: update_conv')
    next
      case (Suc j')
      with Cons.prems have "j' < length items"
        "\<forall>k<length items. j' < k \<longrightarrow>
           nth_id (advance w 1) tag ''pipe'' k \<noteq> nth_id (advance w 1) tag ''pipe'' j'"
        by auto
      from Cons.IH[OF loop this] Suc show ?thesis by simp
    qed
  qed
qed

lemma distinct_map_upt:
  "distinct (map f [0 ..< n]) \<Longrightarrow> a < n \<Longrightarrow> b < n \<Longrightarrow> a \<noteq> b \<Longrightarrow> f a \<noteq> f b"
  by (auto simp: distinct_map inj_on_def)

lemma update_connections_Inr:
  assumes "update_connections config tag cid eid w = (Inr (config1, km), w1)"
  shows "map_of config1 ''pipelines'' = map_of config ''pipelines''"
    and "k \<notin> set (connection_keys config) \<Longrightarrow> map_of km k = None"
    and "map_of config ''connections'' = Some (JObj conns) \<Longrightarrow> conns \<noteq> [] \<Longrightarrow>
         \<exists>nc. connections_loop tag cid eid conns [] [] w = (Inr (nc, km), w1)
            \<and> w1 = advance w (length conns)
            \<and> config1 = AList.update ''connections'' (JObj nc) config"
proof -
  from assms show "map_of config1 ''pipelines'' = map_of config ''pipelines''"
    by (auto simp: update_connections_def update_conv'
        split: option.splits if_splits json.splits prod.splits sum.splits)
  show "map_of km k = None" if "k \<notin> set (connection_keys config)"
    using assms that connections_loop_key_map_other[of tag cid eid _ "[]" "[]" w _ km _ k]
    by (auto simp: update_connections_def connection_keys_def
        split: option.splits if_splits json.splits prod.splits sum.splits)
  show "\<exists>nc. connections_loop tag cid eid conns [] [] w = (Inr (nc, km), w1)
            \<and> w1 = advance w (length conns)
            \<and> config1 = AList.update ''connections'' (JObj nc) config"
    if "map_of config ''connections'' = Some (JObj conns)" "conns \<noteq> []"
    using assms that connections_loop_world[of tag cid eid conns "[]" "[]" w]
    by (auto simp: update_connections_def split: prod.splits sum.splits)
qed

lemma update_pipelines_Inr:
  assumes "update_pipelines config1 tag km w1 = (Inr (config', pids, pm), w')"
    and "map_of config1 ''pipelines'' = Some (JObj pipes)" "pipes \<noteq> []"
  shows "\<exists>np. pipelines_loop tag km pipes [] [] [] w1 = (Inr (np, pids, pm), w')
            \<and> config' = AList.update ''pipelines'' (JObj np) config1"
  using assms by (auto simp: update_pipelines_def split: prod.splits sum.splits)

lemma update_config_ids_Inr:
  assumes "update_config_ids config tag cid eid w = (Inr r, w')"
  obtains config1 km w1 where "update_connections config tag cid eid w = (Inr (config1, km), w1)"
    and "update_pipelines config1 tag km w1 = (Inr r, w')"
  using assms by (auto simp: update_config_ids_def split: prod.splits sum.splits)

text \<open>
  C8. In a rewrite that returns, let a pipeline's connections sub-map hold the symbolic key
  of the \<open>i\<close>-th connection of the same environment. Afterwards the entry holds
  \<^verbatim>\<open>{client_tag}-con-\<close> followed by the 16 hex digits drawn for that connection, which is
  also the key and the \<^verbatim>\<open>id\<close> of the rewritten connection: the connections are rewritten
  first, so the table is complete whatever the position of the connection. The pipeline is
  found under its own generated identifier; that no two pipelines and no two connections
  drew the same random identifier is assumed.
\<close>

theorem pipeline_reference_resolved:
  assumes "update_config_ids config client_tag client_id env_id w = (Inr (config', pids, pipe_map), w')"
    and "map_of config ''connections'' = Some (JObj conns)"
    and "map_of config ''pipelines'' = Some (JObj pipes)"
    and "distinct (map fst conns)"
    and "i < length conns"
    and "j < length pipes"
    and "pipes ! j = (pipe_key, JObj p)"
    and "map_of p ''connections'' = Some (JObj pcs)"
    and "map_of pcs conn_type = Some (JStr (fst (conns ! i)))"
    and "distinct pids"
    and "distinct (map (nth_id w client_tag ''con'') [0 ..< length conns])"
  shows "\<exists>hex pipes' p' pcs' conns' c'.
           hex = random_hex_at w (rand_pos w + 8 * i)
         \<and> length hex = 16 \<and> set hex \<subseteq> set ''0123456789abcdef''
         \<and> map_of config' ''pipelines'' = Some (JObj pipes')
         \<and> map_of pipes' (pids ! j) = Some (JObj p')
         \<and> map_of p' ''connections'' = Some (JObj pcs')
         \<and> map_of pcs' conn_type = Some (JStr (client_tag @ ''-con-'' @ hex))
         \<and> map_of config' ''connections'' = Some (JObj conns')
         \<and> map_of conns' (client_tag @ ''-con-'' @ hex) = Some (JObj c')
         \<and> map_of c' ''id'' = Some (JStr (client_tag @ ''-con-'' @ hex))"
proof -
  let ?cid = "nth_id w client_tag ''con'' i"
  have cid: "?cid = client_tag @ ''-con-'' @ random_hex_at w (rand_pos w + 8 * i)"
    by (simp add: nth_id_def)
  from assms(5,6) have ne: "conns \<noteq> []" "pipes \<noteq> []" by auto
  from assms(1) obtain config1 km w1 where
    uc: "update_connections config client_tag client_id env_id w = (Inr (config1, km), w1)"
    and up: "update_pipelines config1 client_tag km w1 = (Inr (config', pids, pipe_map), w')"
    by (rule update_config_ids_Inr)
  from update_connections_Inr(3)[OF uc assms(2) ne(1)] obtain nc where
    cl: "connections_loop client_tag client_id env_id conns [] [] w = (Inr (nc, km), w1)"
    and w1: "w1 = advance w (length conns)"
    and c1: "config1 = AList.update ''connections'' (JObj nc) config"
    by blast
  have "map_of config1 ''pipelines'' = Some (JObj pipes)"
    using update_connections_Inr(1)[OF uc] assms(3) by simp
  from update_pipelines_Inr[OF up this ne(2)] obtain np where
    pl: "pipelines_loop client_tag km pipes [] [] [] w1 = (Inr (np, pids, pipe_map), w')"
    and c': "config' = AList.update ''pipelines'' (JObj np) config1"
    by blast
  have km: "map_of km (fst (conns ! i)) = Some ?cid"
    using connections_loop_key_map[OF cl assms(4,5)] .
  from pipelines_loop_ids[OF pl] have pids: "pids = map (nth_id w1 client_tag ''pipe'') [0 ..< length pipes]"
    by simp
  with assms(6) have pj: "pids ! j = nth_id w1 client_tag ''pipe'' j" by simp
  have "\<forall>j'<length pipes. j < j' \<longrightarrow>
          nth_id w1 client_tag ''pipe'' j' \<noteq> nth_id w1 client_tag ''pipe'' j"
    using assms(6,10) distinct_map_upt[of "nth_id w1 client_tag ''pipe''" "length pipes"]
    unfolding pids by auto
  from pipelines_loop_entry[OF pl assms(6) this] assms(7) obtain p' where
    st: "pipeline_step client_tag km (JObj p) (advance w1 j) =
           (Inr (nth_id w1 client_tag ''pipe'' j, p'), advance w1 (Suc j))"
    and np: "map_of np (nth_id w1 client_tag ''pipe'' j) = Some (JObj p')"
    by auto
  from pipeline_step_Inr(5)[OF st refl assms(8)] obtain pcs' where
    pcs': "map_of p' ''connections'' = Some (JObj pcs')"
    "\<forall>t. map_of pcs' t = map_option (resolve_conn_ref km) (map_of pcs t)"
    by blast
  from pcs'(2) assms(9) km have ref: "map_of pcs' conn_type = Some (JStr ?cid)"
    by (simp add: resolve_conn_ref_def)
  have "\<forall>i'<length conns. i < i' \<longrightarrow>
          nth_id w client_tag ''con'' i' \<noteq> nth_id w client_tag ''con'' i"
    using assms(5,11) distinct_map_upt[of "nth_id w client_tag ''con''" "length conns"] by auto
  from connections_loop_entry[OF cl assms(5) this] obtain c c1' where
    ce: "update_secret_refs client_id env_id (AList.update ''id'' (JStr ?cid) c) = Inr c1'"
    "map_of nc ?cid = Some (JObj c1')"
    by blast
  have idf: "map_of c1' ''id'' = Some (JStr ?cid)"
    using ce(1)
    by (auto simp: update_secret_refs_def update_secret_field_def update_conv' Let_def
        split: sum.splits option.splits if_splits json.splits)
  have "map_of config' ''pipelines'' = Some (JObj np)"
    "map_of config' ''connections'' = Some (JObj nc)"
    unfolding c' c1 by (simp_all add: update_conv')
  with np pcs'(1) ref ce(2) idf pj random_hex_at_props[of w "rand_pos w + 8 * i"]
  show ?thesis unfolding cid by (intro exI[of _ "random_hex_at w (rand_pos w + 8 * i)"]) auto
qed

lemma example_rewrite:
  "fst (update_config_ids example_config ''acme'' ''CID'' ''EID'' example_world) =
   Inr (example_rewritten, [''acme-pipe-1011121314151617''],
        [(''p1'', ''acme-pipe-1011121314151617'')])"
  by code_simp

lemma example_hex:
  "random_hex_at example_world 0 = ''0001020304050607''"
  "random_hex_at example_world 8 = ''08090a0b0c0d0e0f''"
  by (simp_all add: random_hex_at_def example_world_def upt_rec hex_byte_def hex_digit_def)

lemma example_con_ids:
  "distinct (map (nth_id example_world ''acme'' ''con'') [0 ..< length example_conns])"
  by (simp add: example_conns_def upt_rec nth_id_def example_hex)
    (simp add: example_world_def example_hex [simplified example_world_def, simplified])

theorem pipeline_reference_resolved_witness:
  "\<exists>config' pids pipe_map w'.
      update_config_ids example_config ''acme'' ''CID'' ''EID'' example_world =
        (Inr (config', pids, pipe_map), w')
    \<and> distinct pids
    \<and> (\<exists>pipes' p' pcs'.
          map_of config' ''pipelines'' = Some (JObj pipes')
        \<and> map_of pipes' (pids ! 0) = Some (JObj p')
        \<and> map_of p' ''connections'' = Some (JObj pcs')
        \<and> map_of pcs' ''source'' = Some (JStr ''acme-con-08090a0b0c0d0e0f''))"
proof -
  obtain w' where run:
    "update_config_ids example_config ''acme'' ''CID'' ''EID'' example_world =
       (Inr (example_rewritten, [''acme-pipe-1011121314151617''],
             [(''p1'', ''acme-pipe-1011121314151617'')]), w')"
    using example_rewrite
    by (cases "update_config_ids example_config ''acme'' ''CID'' ''EID'' example_world") auto
  have h: "random_hex_at example_world (rand_pos example_world + 8 * 1) = ''08090a0b0c0d0e0f''"
    using example_hex(2) by (simp add: example_world_def)
  from pipeline_reference_resolved [OF run, where conns = example_conns and i = 1 and j = 0
      and pipes = "[(''p1'', JObj [(''connections'', JObj example_pcs)])]"
      and pipe_key = "''p1''" and p = "[(''connections'', JObj example_pcs)]"
      and pcs = example_pcs and conn_type = "''source''", unfolded h]
    example_con_ids
  obtain pipes' p' pcs' where
    "map_of example_rewritten ''pipelines'' = Some (JObj pipes')"
    "map_of pipes' ([''acme-pipe-1011121314151617''] ! 0) = Some (JObj p')"
    "map_of p' ''connections'' = Some (JObj pcs')"
    "map_of pcs' ''source'' = Some (JStr (''acme'' @ ''-con-'' @ ''08090a0b0c0d0e0f''))"
    by (auto simp: example_config_def example_conns_def example_pcs_def)
  with run show ?thesis
    by (intro exI[of _ example_rewritten] exI[of _ "[''acme-pipe-1011121314151617'']"]
        exI[of _ "[(''p1'', ''acme-pipe-1011121314151617'')]"] exI[of _ w']) auto
qed

lemma contains_iff: "contains s p \<longleftrightarrow> (\<exists>i\<le>length s. startswith (drop i s) p)"
  by (auto simp: contains_def list_ex_iff less_Suc_eq_le simp del: upt_Suc)

lemma contains_Cons: "contains (c # cs) p \<longleftrightarrow> startswith (c # cs) p \<or> contains cs p"
proof
  assume "contains (c # cs) p"
  then obtain i where i: "i \<le> length (c # cs)" "startswith (drop i (c # cs)) p"
    unfolding contains_iff by blast
  show "startswith (c # cs) p \<or> contains cs p"
  proof (cases i)
    case 0
    with i show ?thesis by simp
  next
    case (Suc i')
    with i have "i' \<le> length cs" "startswith (drop i' cs) p" by simp_all
    then show ?thesis unfolding contains_iff by blast
  qed
next
  assume "startswith (c # cs) p \<or> contains cs p"
  then show "contains (c # cs) p"
  proof
    assume "startswith (c # cs) p"
    then have "startswith (drop 0 (c # cs)) p" by simp
    then show ?thesis unfolding contains_iff by blast
  next
    assume "contains cs p"
    then obtain i where "i \<le> length cs" "startswith (drop i cs) p"
      unfolding contains_iff by blast
    then have "Suc i \<le> length (c # cs)" "startswith (drop (Suc i) (c # cs)) p" by simp_all
    then show ?thesis unfolding contains_iff by blast
  qed
qed

lemma startswith_append: "startswith (p @ s) p"
  by (induction p) auto

lemma str_replace_absent:
  "old \<noteq> [] \<Longrightarrow> \<not> contains s old \<Longrightarrow> str_replace old new s = s"
proof (induction s)
  case Nil
  then show ?case by (simp add: str_replace.simps)
next
  case (Cons c cs)
  then have "\<not> startswith (c # cs) old" "\<not> contains cs old" by (simp_all add: contains_Cons)
  with Cons show ?case by (subst str_replace.simps) simp
qed

lemma strip_secret_prefix:
  "\<not> contains name ''secret.'' \<Longrightarrow> str_replace ''secret.'' '''' (''secret.'' @ name) = name"
proof -
  assume a: "\<not> contains name ''secret.''"
  have "str_replace ''secret.'' '''' (''secret.'' @ name) =
        '''' @ str_replace ''secret.'' '''' (drop (length ''secret.'') (''secret.'' @ name))"
    using startswith_append[of "''secret.''" name]
    by (subst str_replace.simps) (simp del: startswith.simps)
  also have "\<dots> = name" using a by (simp add: str_replace_absent)
  finally show ?thesis .
qed

lemma update_secret_field_ref:
  assumes "map_of c field = Some (JStr (''secret.'' @ name))"
  shows "\<exists>n'. update_secret_field cid eid field c =
               Inr (AList.update field (JStr (secret_path cid eid n')) c)
            \<and> (\<not> contains name ''secret.'' \<longrightarrow> n' = name)"
proof -
  have "startswith (''secret.'' @ name) ''secret.''" by (rule startswith_append)
  with assms have "update_secret_field cid eid field c =
      Inr (AList.update field
             (JStr (secret_path cid eid (str_replace ''secret.'' '''' (''secret.'' @ name)))) c)"
    by (simp add: update_secret_field_def Let_def del: startswith.simps append.simps)
  with strip_secret_prefix[of name] show ?thesis by blast
qed

lemma update_secret_field_other:
  "update_secret_field cid eid field c = Inr c' \<Longrightarrow> k \<noteq> field \<Longrightarrow> map_of c' k = map_of c k"
  by (auto simp: update_secret_field_def Let_def update_conv'
      split: option.splits if_splits json.splits)

lemma update_secret_field_total:
  "str_or_falsy (map_of c field) \<Longrightarrow> \<exists>c'. update_secret_field cid eid field c = Inr c'"
  by (cases "map_of c field" rule: str_or_falsy.cases)
    (auto simp: update_secret_field_def Let_def)

lemma update_secret_refs_total:
  assumes "str_or_falsy (map_of c ''password'')" "str_or_falsy (map_of c ''client_secret'')"
  shows "\<exists>c'. update_secret_refs cid eid c = Inr c'"
proof -
  from update_secret_field_total[OF assms(1)] obtain c1 where
    c1: "update_secret_field cid eid ''password'' c = Inr c1" by blast
  from update_secret_field_other[OF c1, of "''client_secret''"] assms(2)
  have "str_or_falsy (map_of c1 ''client_secret'')" by simp
  from update_secret_field_total[OF this] c1 show ?thesis
    by (auto simp: update_secret_refs_def)
qed

lemma update_secret_refs_ref:
  assumes "update_secret_refs cid eid c = Inr c'"
    and "field = ''password'' \<or> field = ''client_secret''"
    and "map_of c field = Some (JStr (''secret.'' @ name))"
  shows "\<exists>n'. map_of c' field = Some (JStr (secret_path cid eid n'))
            \<and> (\<not> contains name ''secret.'' \<longrightarrow> n' = name)"
proof -
  from assms(1) obtain c1 where
    c1: "update_secret_field cid eid ''password'' c = Inr c1"
    and c': "update_secret_field cid eid ''client_secret'' c1 = Inr c'"
    by (auto simp: update_secret_refs_def split: sum.splits)
  from assms(2) show ?thesis
  proof
    assume f: "field = ''password''"
    from update_secret_field_ref[OF assms(3)[unfolded f], of cid eid] c1 obtain n' where
      "c1 = AList.update ''password'' (JStr (secret_path cid eid n')) c"
      "\<not> contains name ''secret.'' \<longrightarrow> n' = name" by auto
    with update_secret_field_other[OF c', of "''password''"] f show ?thesis
      by (auto simp: update_conv')
  next
    assume f: "field = ''client_secret''"
    from update_secret_field_other[OF c1, of "''client_secret''"] assms(3) f
    have "map_of c1 ''client_secret'' = Some (JStr (''secret.'' @ name))" by simp
    from update_secret_field_ref[OF this, of cid eid] c' f show ?thesis
      by (auto simp: update_conv')
  qed
qed

lemma connection_step_total:
  assumes "well_typed_connection conn"
  shows "\<exists>r. connection_step tag cid eid conn w = (Inr r, advance w 1)"
proof -
  from assms obtain c where c: "conn = JObj c" by (cases conn) auto
  with assms have "str_or_falsy (map_of (AList.update ''id'' (JStr (nth_id w tag ''con'' 0)) c) ''password'')"
    "str_or_falsy (map_of (AList.update ''id'' (JStr (nth_id w tag ''con'' 0)) c) ''client_secret'')"
    by (simp_all add: update_conv')
  from update_secret_refs_total[OF this, of cid eid] c show ?thesis
    by (auto simp: connection_step_eq)
qed

lemma connections_loop_total:
  "list_all (\<lambda>kv. well_typed_connection (snd kv)) items \<Longrightarrow>
   \<exists>r w'. connections_loop tag cid eid items nc km w = (Inr r, w')"
proof (induction items arbitrary: nc km w)
  case Nil
  then show ?case by simp
next
  case (Cons a items)
  obtain ck conn where a: "a = (ck, conn)" by (cases a) auto
  with Cons.prems have "well_typed_connection conn" by simp
  from connection_step_total[OF this, of tag cid eid w] obtain nid c' where
    "connection_step tag cid eid conn w = (Inr (nid, c'), advance w 1)" by auto
  moreover from Cons.prems have "list_all (\<lambda>kv. well_typed_connection (snd kv)) items" by simp
  note Cons.IH[OF this, of "AList.update nid (JObj c') nc" "AList.update ck nid km" "advance w 1"]
  ultimately show ?case using a by auto
qed

lemma pipeline_step_total:
  assumes "well_typed_pipeline pipe"
  shows "\<exists>r. pipeline_step tag km pipe w = (Inr r, advance w 1)"
proof -
  from assms obtain p where p: "pipe = JObj p" by (cases pipe) auto
  show ?thesis
  proof (cases "map_of p ''connections''")
    case None
    with p show ?thesis
      by (simp add: pipeline_step_def generate_config_id_eq Let_def update_conv')
  next
    case (Some v)
    show ?thesis
    proof (cases "\<exists>pcs. v = JObj pcs")
      case True
      then obtain pcs where v: "v = JObj pcs" by blast
      with assms p Some have "list_all (\<lambda>tv. hashable (snd tv)) pcs" by simp
      from update_conn_refs_total[OF this, of km] p Some v show ?thesis
        by (auto simp: pipeline_step_def generate_config_id_eq Let_def update_conv')
    next
      case False
      with assms p Some have "\<not> truthy v" by (cases v) auto
      with p Some show ?thesis
        by (simp add: pipeline_step_def generate_config_id_eq Let_def update_conv')
    qed
  qed
qed

lemma pipelines_loop_total:
  "list_all (\<lambda>kv. well_typed_pipeline (snd kv)) items \<Longrightarrow>
   \<exists>r w'. pipelines_loop tag km items np pids pm w = (Inr r, w')"
proof (induction items arbitrary: np pids pm w)
  case Nil
  then show ?case by simp
next
  case (Cons a items)
  obtain pk pipe where a: "a = (pk, pipe)" by (cases a) auto
  with Cons.prems have "well_typed_pipeline pipe" by simp
  from pipeline_step_total[OF this, of tag km w] obtain pid p' where
    "pipeline_step tag km pipe w = (Inr (pid, p'), advance w 1)" by auto
  moreover from Cons.prems have "list_all (\<lambda>kv. well_typed_pipeline (snd kv)) items" by simp
  note Cons.IH[OF this, of "AList.update pid (JObj p') np" "pids @ [pid]"
      "AList.update pk pid pm" "advance w 1"]
  ultimately show ?case using a by auto
qed

lemma update_connections_total:
  assumes "well_typed_config config"
  shows "\<exists>r w1. update_connections config tag cid eid w = (Inr r, w1)"
proof (cases "map_of config ''connections''")
  case None
  then show ?thesis by (simp add: update_connections_def)
next
  case (Some v)
  show ?thesis
  proof (cases "\<exists>conns. v = JObj conns")
    case True
    then obtain conns where v: "v = JObj conns" by blast
    with assms Some have "list_all (\<lambda>kv. well_typed_connection (snd kv)) conns"
      by (simp add: well_typed_config_def)
    from connections_loop_total[OF this, of tag cid eid "[]" "[]" w] Some v show ?thesis
      by (auto simp: update_connections_def)
  next
    case False
    with assms Some have "\<not> truthy v" by (cases v) (auto simp: well_typed_config_def)
    with Some show ?thesis by (simp add: update_connections_def)
  qed
qed

lemma update_pipelines_total:
  assumes "well_typed_config config" "map_of config1 ''pipelines'' = map_of config ''pipelines''"
  shows "\<exists>r w'. update_pipelines config1 tag km w = (Inr r, w')"
proof (cases "map_of config ''pipelines''")
  case None
  with assms(2) show ?thesis by (simp add: update_pipelines_def)
next
  case (Some v)
  show ?thesis
  proof (cases "\<exists>pipes. v = JObj pipes")
    case True
    then obtain pipes where v: "v = JObj pipes" by blast
    with assms Some have "list_all (\<lambda>kv. well_typed_pipeline (snd kv)) pipes"
      by (simp add: well_typed_config_def)
    from pipelines_loop_total[OF this, of tag km "[]" "[]" "[]" w] Some v assms(2) show ?thesis
      by (auto simp: update_pipelines_def)
  next
    case False
    with assms Some have "\<not> truthy v" by (cases v) (auto simp: well_typed_config_def)
    with Some assms(2) show ?thesis by (simp add: update_pipelines_def)
  qed
qed

lemma update_config_ids_total:
  assumes "well_typed_config config"
  shows "\<exists>config' pids pipe_map w'.
           update_config_ids config tag cid eid w = (Inr (config', pids, pipe_map), w')"
proof -
  from update_connections_total[OF assms, of tag cid eid w] obtain config1 km w1 where
    uc: "update_connections config tag cid eid w = (Inr (config1, km), w1)" by auto
  from update_pipelines_total[OF assms update_connections_Inr(1)[OF uc], of tag km w1]
  obtain r w' where "update_pipelines config1 tag km w1 = (Inr r, w')" by blast
  with uc show ?thesis by (cases r) (auto simp: update_config_ids_def)
qed

lemma rewritten_pipeline_entry:
  assumes "update_config_ids config tag cid eid w = (Inr (config', pids, pipe_map), w')"
    and "map_of config ''pipelines'' = Some (JObj pipes)"
    and "j < length pipes"
    and "pipes ! j = (pipe_key, JObj p)"
    and "map_of p ''connections'' = Some (JObj pcs)"
    and "distinct pids"
  shows "\<exists>config1 km w1 np p' pcs'.
           update_connections config tag cid eid w = (Inr (config1, km), w1)
         \<and> map_of config' ''pipelines'' = Some (JObj np)
         \<and> map_of np (pids ! j) = Some (JObj p')
         \<and> map_of p' ''connections'' = Some (JObj pcs')
         \<and> (\<forall>t. map_of pcs' t = map_option (resolve_conn_ref km) (map_of pcs t))"
proof -
  from assms(3) have ne: "pipes \<noteq> []" by auto
  from assms(1) obtain config1 km w1 where
    uc: "update_connections config tag cid eid w = (Inr (config1, km), w1)"
    and up: "update_pipelines config1 tag km w1 = (Inr (config', pids, pipe_map), w')"
    by (rule update_config_ids_Inr)
  have "map_of config1 ''pipelines'' = Some (JObj pipes)"
    using update_connections_Inr(1)[OF uc] assms(2) by simp
  from update_pipelines_Inr[OF up this ne] obtain np where
    pl: "pipelines_loop tag km pipes [] [] [] w1 = (Inr (np, pids, pipe_map), w')"
    and c': "config' = AList.update ''pipelines'' (JObj np) config1"
    by blast
  from pipelines_loop_ids[OF pl] have pids: "pids = map (nth_id w1 tag ''pipe'') [0 ..< length pipes]"
    by simp
  with assms(3) have pj: "pids ! j = nth_id w1 tag ''pipe'' j" by simp
  have "\<forall>j'<length pipes. j < j' \<longrightarrow> nth_id w1 tag ''pipe'' j' \<noteq> nth_id w1 tag ''pipe'' j"
    using assms(3,6) distinct_map_upt[of "nth_id w1 tag ''pipe''" "length pipes"]
    unfolding pids by auto
  from pipelines_loop_entry[OF pl assms(3) this] assms(4) obtain p' where
    st: "pipeline_step tag km (JObj p) (advance w1 j) =
           (Inr (nth_id w1 tag ''pipe'' j, p'), advance w1 (Suc j))"
    and np: "map_of np (nth_id w1 tag ''pipe'' j) = Some (JObj p')"
    by auto
  from pipeline_step_Inr(5)[OF st refl assms(5)] obtain pcs' where
    "map_of p' ''connections'' = Some (JObj pcs')"
    "\<forall>t. map_of pcs' t = map_option (resolve_conn_ref km) (map_of pcs t)"
    by blast
  moreover have "map_of config' ''pipelines'' = Some (JObj np)"
    unfolding c' by (simp add: update_conv')
  ultimately show ?thesis using uc np pj by auto
qed

lemma rewritten_connection_entry:
  assumes "update_config_ids config tag cid eid w = (Inr (config', pids, pipe_map), w')"
    and "map_of config ''connections'' = Some (JObj conns)"
    and "i < length conns"
    and "distinct (map (nth_id w tag ''con'') [0 ..< length conns])"
  shows "\<exists>nc c c'. snd (conns ! i) = JObj c
         \<and> update_secret_refs cid eid (AList.update ''id'' (JStr (nth_id w tag ''con'' i)) c) = Inr c'
         \<and> map_of config' ''connections'' = Some (JObj nc)
         \<and> map_of nc (nth_id w tag ''con'' i) = Some (JObj c')"
proof -
  from assms(3) have ne: "conns \<noteq> []" by auto
  from assms(1) obtain config1 km w1 where
    uc: "update_connections config tag cid eid w = (Inr (config1, km), w1)"
    and up: "update_pipelines config1 tag km w1 = (Inr (config', pids, pipe_map), w')"
    by (rule update_config_ids_Inr)
  from update_connections_Inr(3)[OF uc assms(2) ne] obtain nc where
    cl: "connections_loop tag cid eid conns [] [] w = (Inr (nc, km), w1)"
    and c1: "config1 = AList.update ''connections'' (JObj nc) config"
    by blast
  have "map_of config' ''connections'' = map_of config1 ''connections''"
    using up
    by (auto simp: update_pipelines_def update_conv'
        split: option.splits if_splits json.splits prod.splits sum.splits)
  then have cc: "map_of config' ''connections'' = Some (JObj nc)"
    unfolding c1 by (simp add: update_conv')
  have "\<forall>i'<length conns. i < i' \<longrightarrow> nth_id w tag ''con'' i' \<noteq> nth_id w tag ''con'' i"
    using assms(3,4) distinct_map_upt[of "nth_id w tag ''con''" "length conns"] by auto
  from connections_loop_entry[OF cl assms(3) this] cc show ?thesis by blast
qed

text \<open>
  C3, as amended. A config whose parts have the types the rewrite expects is rewritten
  without an exception. A connection field \<^verbatim>\<open>secret.<name>\<close> is replaced by a path under
  the secrets of the environment, the path of \<^verbatim>\<open><name>\<close> when \<^verbatim>\<open><name>\<close> does not itself
  contain \<^verbatim>\<open>secret.\<close>; the rewrite is not given the secret mapping of the environment, so
  this does not depend on whether the secret exists. A pipeline reference to a key that is
  no connection of the environment keeps its value.
\<close>

theorem unresolved_references_pass:
  assumes "well_typed_config config"
  shows "\<exists>config' pids pipe_map w'.
      update_config_ids config client_tag client_id env_id w = (Inr (config', pids, pipe_map), w')
    \<and> (\<forall>conns i c field name.
          map_of config ''connections'' = Some (JObj conns) \<and> i < length conns
          \<and> snd (conns ! i) = JObj c
          \<and> (field = ''password'' \<or> field = ''client_secret'')
          \<and> map_of c field = Some (JStr (''secret.'' @ name))
          \<and> distinct (map (nth_id w client_tag ''con'') [0 ..< length conns])
          \<longrightarrow> (\<exists>conns' c' n'.
                 map_of config' ''connections'' = Some (JObj conns')
               \<and> map_of conns' (nth_id w client_tag ''con'' i) = Some (JObj c')
               \<and> map_of c' field = Some (JStr (secret_path client_id env_id n'))
               \<and> (\<not> contains name ''secret.'' \<longrightarrow> n' = name)))
    \<and> (\<forall>pipes j pipe_key p pcs conn_type k.
          map_of config ''pipelines'' = Some (JObj pipes) \<and> j < length pipes
          \<and> pipes ! j = (pipe_key, JObj p)
          \<and> map_of p ''connections'' = Some (JObj pcs)
          \<and> map_of pcs conn_type = Some (JStr k)
          \<and> k \<notin> set (connection_keys config)
          \<and> distinct pids
          \<longrightarrow> (\<exists>pipes' p' pcs'.
                 map_of config' ''pipelines'' = Some (JObj pipes')
               \<and> map_of pipes' (pids ! j) = Some (JObj p')
               \<and> map_of p' ''connections'' = Some (JObj pcs')
               \<and> map_of pcs' conn_type = Some (JStr k)))"
proof -
  from update_config_ids_total[OF assms, of client_tag client_id env_id w]
  obtain config' pids pipe_map w' where
    run: "update_config_ids config client_tag client_id env_id w =
            (Inr (config', pids, pipe_map), w')" by blast
  have sec: "\<forall>conns i c field name.
          map_of config ''connections'' = Some (JObj conns) \<and> i < length conns
          \<and> snd (conns ! i) = JObj c
          \<and> (field = ''password'' \<or> field = ''client_secret'')
          \<and> map_of c field = Some (JStr (''secret.'' @ name))
          \<and> distinct (map (nth_id w client_tag ''con'') [0 ..< length conns])
          \<longrightarrow> (\<exists>conns' c' n'.
                 map_of config' ''connections'' = Some (JObj conns')
               \<and> map_of conns' (nth_id w client_tag ''con'' i) = Some (JObj c')
               \<and> map_of c' field = Some (JStr (secret_path client_id env_id n'))
               \<and> (\<not> contains name ''secret.'' \<longrightarrow> n' = name))"
  proof (intro allI impI, elim conjE)
    fix conns i c field name
    assume a: "map_of config ''connections'' = Some (JObj conns)" "i < length conns"
      "snd (conns ! i) = JObj c" "field = ''password'' \<or> field = ''client_secret''"
      "map_of c field = Some (JStr (''secret.'' @ name))"
      "distinct (map (nth_id w client_tag ''con'') [0 ..< length conns])"
    from rewritten_connection_entry[OF run a(1,2,6)] a(3) obtain nc c' where
      e: "update_secret_refs client_id env_id
            (AList.update ''id'' (JStr (nth_id w client_tag ''con'' i)) c) = Inr c'"
      "map_of config' ''connections'' = Some (JObj nc)"
      "map_of nc (nth_id w client_tag ''con'' i) = Some (JObj c')"
      by auto
    from a(4,5) have "map_of (AList.update ''id'' (JStr (nth_id w client_tag ''con'' i)) c) field
        = Some (JStr (''secret.'' @ name))"
      by (auto simp: update_conv' simp del: append.simps)
    from update_secret_refs_ref[OF e(1) a(4) this] obtain n' where
      "map_of c' field = Some (JStr (secret_path client_id env_id n'))"
      "\<not> contains name ''secret.'' \<longrightarrow> n' = name" by blast
    with e(2,3) show "\<exists>conns' c' n'.
                 map_of config' ''connections'' = Some (JObj conns')
               \<and> map_of conns' (nth_id w client_tag ''con'' i) = Some (JObj c')
               \<and> map_of c' field = Some (JStr (secret_path client_id env_id n'))
               \<and> (\<not> contains name ''secret.'' \<longrightarrow> n' = name)"
      by (intro exI[of _ nc] exI[of _ c'] exI[of _ n'] conjI)
  qed
  have ref: "\<forall>pipes j pipe_key p pcs conn_type k.
          map_of config ''pipelines'' = Some (JObj pipes) \<and> j < length pipes
          \<and> pipes ! j = (pipe_key, JObj p)
          \<and> map_of p ''connections'' = Some (JObj pcs)
          \<and> map_of pcs conn_type = Some (JStr k)
          \<and> k \<notin> set (connection_keys config)
          \<and> distinct pids
          \<longrightarrow> (\<exists>pipes' p' pcs'.
                 map_of config' ''pipelines'' = Some (JObj pipes')
               \<and> map_of pipes' (pids ! j) = Some (JObj p')
               \<and> map_of p' ''connections'' = Some (JObj pcs')
               \<and> map_of pcs' conn_type = Some (JStr k))"
  proof (intro allI impI, elim conjE)
    fix pipes j pipe_key p pcs conn_type k
    assume a: "map_of config ''pipelines'' = Some (JObj pipes)" "j < length pipes"
      "pipes ! j = (pipe_key, JObj p)" "map_of p ''connections'' = Some (JObj pcs)"
      "map_of pcs conn_type = Some (JStr k)" "k \<notin> set (connection_keys config)" "distinct pids"
    from rewritten_pipeline_entry[OF run a(1,2,3,4,7)] obtain config1 km w1 np p' pcs' where
      e: "update_connections config client_tag client_id env_id w = (Inr (config1, km), w1)"
      "map_of config' ''pipelines'' = Some (JObj np)"
      "map_of np (pids ! j) = Some (JObj p')"
      "map_of p' ''connections'' = Some (JObj pcs')"
      "\<forall>t. map_of pcs' t = map_option (resolve_conn_ref km) (map_of pcs t)"
      by blast
    from update_connections_Inr(2)[OF e(1) a(6)] have "map_of km k = None" .
    with e(5) a(5) have "map_of pcs' conn_type = Some (JStr k)"
      by (simp add: resolve_conn_ref_def)
    with e(2,3,4) show "\<exists>pipes' p' pcs'.
                 map_of config' ''pipelines'' = Some (JObj pipes')
               \<and> map_of pipes' (pids ! j) = Some (JObj p')
               \<and> map_of p' ''connections'' = Some (JObj pcs')
               \<and> map_of pcs' conn_type = Some (JStr k)"
      by (intro exI[of _ np] exI[of _ p'] exI[of _ pcs'] conjI)
  qed
  show ?thesis
    by (rule exI[of _ config'], rule exI[of _ pids], rule exI[of _ pipe_map], rule exI[of _ w'],
        intro conjI, rule run, rule sec, rule ref)
qed

text \<open>
  C3 as stated fails for the secret reference: the environment defines the secret
  \<^verbatim>\<open>dbpw\<close> only, and the \<^verbatim>\<open>client_secret\<close> \<^verbatim>\<open>secret.nope\<close> of the connection \<^verbatim>\<open>api\<close> is stored
  as the path of a secret \<^verbatim>\<open>nope\<close>, not unchanged.
\<close>

theorem absent_secret_reference_rewritten:
  "map_of [(''dbpw'', JStr ''pw'')] ''nope'' = None
   \<and> files (snd (create_client_config dangling_dir ''us-east-1'' True (Some ''out'') example_world)) =
       [(''client_config.json'',
         JObj [(''tag'', JStr ''acme''), (''id'', JStr ''acme-cid-0001020304050607'')]),
        (''environment_prod_config.json'', dangling_stored),
        (''environment_prod_secrets.json'', JObj [(''dbpw'', JStr ''pw'')])]"
  by (intro conjI; code_simp)

theorem unresolved_references_pass_witness:
  "well_typed_config example_config
   \<and> (\<exists>config' pids pipe_map w'.
         update_config_ids example_config ''acme'' ''CID'' ''EID'' example_world =
           (Inr (config', pids, pipe_map), w')
       \<and> (\<exists>conns' c'.
             map_of config' ''connections'' = Some (JObj conns')
           \<and> map_of conns' ''acme-con-08090a0b0c0d0e0f'' = Some (JObj c')
           \<and> map_of c' ''client_secret'' = Some (JStr (secret_path ''CID'' ''EID'' ''nope'')))
       \<and> (\<exists>pipes' p' pcs'.
             map_of config' ''pipelines'' = Some (JObj pipes')
           \<and> map_of pipes' (pids ! 0) = Some (JObj p')
           \<and> map_of p' ''connections'' = Some (JObj pcs')
           \<and> map_of pcs' ''sink'' = Some (JStr ''missing'')))"
proof
  show wt: "well_typed_config example_config"
    by (simp add: well_typed_config_def example_config_def example_conns_def example_pcs_def)
  from unresolved_references_pass [OF wt, of "''acme''" "''CID''" "''EID''" example_world]
  obtain config' pids pipe_map w' where
    run: "update_config_ids example_config ''acme'' ''CID'' ''EID'' example_world =
            (Inr (config', pids, pipe_map), w')"
    and sec: "\<forall>conns i c field name.
          map_of example_config ''connections'' = Some (JObj conns) \<and> i < length conns
          \<and> snd (conns ! i) = JObj c
          \<and> (field = ''password'' \<or> field = ''client_secret'')
          \<and> map_of c field = Some (JStr (''secret.'' @ name))
          \<and> distinct (map (nth_id example_world ''acme'' ''con'') [0 ..< length conns])
          \<longrightarrow> (\<exists>conns' c' n'.
                 map_of config' ''connections'' = Some (JObj conns')
               \<and> map_of conns' (nth_id example_world ''acme'' ''con'' i) = Some (JObj c')
               \<and> map_of c' field = Some (JStr (secret_path ''CID'' ''EID'' n'))
               \<and> (\<not> contains name ''secret.'' \<longrightarrow> n' = name))"
    and ref: "\<forall>pipes j pipe_key p pcs conn_type k.
          map_of example_config ''pipelines'' = Some (JObj pipes) \<and> j < length pipes
          \<and> pipes ! j = (pipe_key, JObj p)
          \<and> map_of p ''connections'' = Some (JObj pcs)
          \<and> map_of pcs conn_type = Some (JStr k)
          \<and> k \<notin> set (connection_keys example_config)
          \<and> distinct pids
          \<longrightarrow> (\<exists>pipes' p' pcs'.
                 map_of config' ''pipelines'' = Some (JObj pipes')
               \<and> map_of pipes' (pids ! j) = Some (JObj p')
               \<and> map_of p' ''connections'' = Some (JObj pcs')
               \<and> map_of pcs' conn_type = Some (JStr k))"
    by blast
  from run example_rewrite have pids: "pids = [''acme-pipe-1011121314151617'']" by simp
  have id1: "nth_id example_world ''acme'' ''con'' 1 = ''acme-con-08090a0b0c0d0e0f''"
    using example_hex(2) by (simp add: nth_id_def example_world_def)
  have nc: "\<not> contains ''nope'' ''secret.''" by (simp add: contains_def upt_rec)
  have "map_of example_config ''connections'' = Some (JObj example_conns) \<and> 1 < length example_conns
          \<and> snd (example_conns ! 1) = JObj [(''client_secret'', JStr ''secret.nope'')]
          \<and> (''client_secret'' = ''password'' \<or> ''client_secret'' = ''client_secret'')
          \<and> map_of [(''client_secret'', JStr ''secret.nope'')] ''client_secret'' =
              Some (JStr (''secret.'' @ ''nope''))
          \<and> distinct (map (nth_id example_world ''acme'' ''con'') [0 ..< length example_conns])"
    using example_con_ids by (simp add: example_config_def example_conns_def)
  from sec [rule_format, OF this] nc id1 obtain conns' c' where s:
    "map_of config' ''connections'' = Some (JObj conns')"
    "map_of conns' ''acme-con-08090a0b0c0d0e0f'' = Some (JObj c')"
    "map_of c' ''client_secret'' = Some (JStr (secret_path ''CID'' ''EID'' ''nope''))"
    by auto
  have "map_of example_config ''pipelines'' =
          Some (JObj [(''p1'', JObj [(''connections'', JObj example_pcs)])])
        \<and> 0 < length [(''p1'', JObj [(''connections'', JObj example_pcs)])]
        \<and> [(''p1'', JObj [(''connections'', JObj example_pcs)])] ! 0 =
            (''p1'', JObj [(''connections'', JObj example_pcs)])
        \<and> map_of [(''connections'', JObj example_pcs)] ''connections'' = Some (JObj example_pcs)
        \<and> map_of example_pcs ''sink'' = Some (JStr ''missing'')
        \<and> ''missing'' \<notin> set (connection_keys example_config)
        \<and> distinct pids"
    using pids
    by (simp add: example_config_def example_conns_def example_pcs_def connection_keys_def)
  from ref [rule_format, OF this] obtain pipes' p' pcs' where r:
    "map_of config' ''pipelines'' = Some (JObj pipes')"
    "map_of pipes' (pids ! 0) = Some (JObj p')"
    "map_of p' ''connections'' = Some (JObj pcs')"
    "map_of pcs' ''sink'' = Some (JStr ''missing'')"
    by blast
  show "\<exists>config' pids pipe_map w'.
         update_config_ids example_config ''acme'' ''CID'' ''EID'' example_world =
           (Inr (config', pids, pipe_map), w')
       \<and> (\<exists>conns' c'.
             map_of config' ''connections'' = Some (JObj conns')
           \<and> map_of conns' ''acme-con-08090a0b0c0d0e0f'' = Some (JObj c')
           \<and> map_of c' ''client_secret'' = Some (JStr (secret_path ''CID'' ''EID'' ''nope'')))
       \<and> (\<exists>pipes' p' pcs'.
             map_of config' ''pipelines'' = Some (JObj pipes')
           \<and> map_of pipes' (pids ! 0) = Some (JObj p')
           \<and> map_of p' ''connections'' = Some (JObj pcs')
           \<and> map_of pcs' ''sink'' = Some (JStr ''missing''))"
    by (rule exI[of _ config'], rule exI[of _ pids], rule exI[of _ pipe_map], rule exI[of _ w'],
        intro conjI, rule run,
        (rule exI[of _ conns'], rule exI[of _ c'], intro conjI, rule s(1), rule s(2), rule s(3)),
        (rule exI[of _ pipes'], rule exI[of _ p'], rule exI[of _ pcs'], intro conjI,
         rule r(1), rule r(2), rule r(3), rule r(4)))
qed

section \<open>Configuration blobs and secrets\<close>

lemma same_rand_refl [simp]: "same_rand a a"
  by (simp add: same_rand_def)

lemma same_rand_advance: "same_rand a b \<Longrightarrow> same_rand (advance a k) (advance b k)"
  by (simp add: same_rand_def)

lemma nth_id_cong: "same_rand a b \<Longrightarrow> nth_id a tag label k = nth_id b tag label k"
  by (simp add: same_rand_def nth_id_def random_hex_at_def)

lemma connection_step_cong:
  "same_rand a b \<Longrightarrow> fst (connection_step tag cid eid conn a) = fst (connection_step tag cid eid conn b)"
  by (auto simp: connection_step_eq nth_id_cong[of a b] split: json.splits sum.splits)

lemma connections_loop_cong:
  "same_rand a b \<Longrightarrow>
   \<exists>r k. connections_loop tag cid eid items nc km a = (r, advance a k)
        \<and> connections_loop tag cid eid items nc km b = (r, advance b k)"
proof (induction items arbitrary: nc km a b)
  case Nil
  show ?case by (intro exI[of _ "Inr (nc, km)"] exI[of _ 0]) simp
next
  case (Cons x items)
  obtain ck conn where x: "x = (ck, conn)" by (cases x) auto
  obtain r where ra: "connection_step tag cid eid conn a = (r, advance a 1)"
    by (simp add: connection_step_eq)
  with connection_step_cong[OF Cons.prems, of tag cid eid conn]
  have rb: "connection_step tag cid eid conn b = (r, advance b 1)"
    by (simp add: connection_step_eq)
  show ?case
  proof (cases r)
    case (Inl e)
    with ra rb x show ?thesis by (intro exI[of _ "Inl e"] exI[of _ 1]) simp
  next
    case (Inr v)
    obtain nid c' where v: "v = (nid, c')" by (cases v) auto
    from Cons.IH[OF same_rand_advance[OF Cons.prems, of 1],
        of "AList.update nid (JObj c') nc" "AList.update ck nid km"]
    obtain r' k where
      "connections_loop tag cid eid items (AList.update nid (JObj c') nc)
         (AList.update ck nid km) (advance a 1) = (r', advance (advance a 1) k)"
      "connections_loop tag cid eid items (AList.update nid (JObj c') nc)
         (AList.update ck nid km) (advance b 1) = (r', advance (advance b 1) k)"
      by blast
    with ra rb x Inr v show ?thesis
      by (intro exI[of _ r'] exI[of _ "1 + k"]) simp
  qed
qed

lemma pipeline_step_cong:
  "same_rand a b \<Longrightarrow> fst (pipeline_step tag km pipe a) = fst (pipeline_step tag km pipe b)"
  by (auto simp: pipeline_step_def generate_config_id_eq nth_id_cong[of a b] Let_def
      split: json.splits option.splits sum.splits)

lemma pipelines_loop_cong:
  "same_rand a b \<Longrightarrow>
   \<exists>r k. pipelines_loop tag km items np pids pm a = (r, advance a k)
        \<and> pipelines_loop tag km items np pids pm b = (r, advance b k)"
proof (induction items arbitrary: np pids pm a b)
  case Nil
  show ?case by (intro exI[of _ "Inr (np, pids, pm)"] exI[of _ 0]) simp
next
  case (Cons x items)
  obtain pk pipe where x: "x = (pk, pipe)" by (cases x) auto
  obtain r where ra: "pipeline_step tag km pipe a = (r, advance a 1)"
    using pipeline_step_world[of tag km pipe a] by (cases "pipeline_step tag km pipe a") auto
  with pipeline_step_cong[OF Cons.prems, of tag km pipe] pipeline_step_world[of tag km pipe b]
  have rb: "pipeline_step tag km pipe b = (r, advance b 1)"
    by (cases "pipeline_step tag km pipe b") auto
  show ?case
  proof (cases r)
    case (Inl e)
    with ra rb x show ?thesis by (intro exI[of _ "Inl e"] exI[of _ 1]) simp
  next
    case (Inr v)
    obtain pid p' where v: "v = (pid, p')" by (cases v) auto
    from Cons.IH[OF same_rand_advance[OF Cons.prems, of 1],
        of "AList.update pid (JObj p') np" "pids @ [pid]" "AList.update pk pid pm"]
    obtain r' k where
      "pipelines_loop tag km items (AList.update pid (JObj p') np) (pids @ [pid])
         (AList.update pk pid pm) (advance a 1) = (r', advance (advance a 1) k)"
      "pipelines_loop tag km items (AList.update pid (JObj p') np) (pids @ [pid])
         (AList.update pk pid pm) (advance b 1) = (r', advance (advance b 1) k)"
      by blast
    with ra rb x Inr v show ?thesis
      by (intro exI[of _ r'] exI[of _ "1 + k"]) simp
  qed
qed

lemma update_connections_cong:
  assumes "same_rand a b"
  shows "\<exists>r k. update_connections config tag cid eid a = (r, advance a k)
              \<and> update_connections config tag cid eid b = (r, advance b k)"
proof (cases "\<exists>conns. map_of config ''connections'' = Some (JObj conns) \<and> conns \<noteq> []")
  case True
  then obtain conns where c: "map_of config ''connections'' = Some (JObj conns)" "conns \<noteq> []"
    by blast
  from connections_loop_cong[OF assms, of tag cid eid conns "[]" "[]"] obtain r k where
    "connections_loop tag cid eid conns [] [] a = (r, advance a k)"
    "connections_loop tag cid eid conns [] [] b = (r, advance b k)" by blast
  with c show ?thesis
    by (cases r) (auto simp: update_connections_def intro: exI[of _ k])
next
  case False
  then have "update_connections config tag cid eid a = (update_connections_result, advance a 0)
      \<and> update_connections config tag cid eid b = (update_connections_result, advance b 0)"
    if "update_connections_result = fst (update_connections config tag cid eid a)"
    for update_connections_result
    using that
    by (auto simp: update_connections_def split: option.splits json.splits)
  then show ?thesis by blast
qed

lemma update_pipelines_cong:
  assumes "same_rand a b"
  shows "\<exists>r k. update_pipelines config tag km a = (r, advance a k)
              \<and> update_pipelines config tag km b = (r, advance b k)"
proof (cases "\<exists>pipes. map_of config ''pipelines'' = Some (JObj pipes) \<and> pipes \<noteq> []")
  case True
  then obtain pipes where c: "map_of config ''pipelines'' = Some (JObj pipes)" "pipes \<noteq> []"
    by blast
  from pipelines_loop_cong[OF assms, of tag km pipes "[]" "[]" "[]"] obtain r k where
    "pipelines_loop tag km pipes [] [] [] a = (r, advance a k)"
    "pipelines_loop tag km pipes [] [] [] b = (r, advance b k)" by blast
  with c show ?thesis
    by (cases r) (auto simp: update_pipelines_def intro: exI[of _ k])
next
  case False
  then have "update_pipelines config tag km a = (res, advance a 0)
      \<and> update_pipelines config tag km b = (res, advance b 0)"
    if "res = fst (update_pipelines config tag km a)" for res
    using that
    by (auto simp: update_pipelines_def split: option.splits json.splits)
  then show ?thesis by blast
qed

lemma update_config_ids_cong:
  assumes "same_rand a b"
  shows "\<exists>r k. update_config_ids config tag cid eid a = (r, advance a k)
              \<and> update_config_ids config tag cid eid b = (r, advance b k)"
proof -
  from update_connections_cong[OF assms, of config tag cid eid] obtain r1 k1 where
    u: "update_connections config tag cid eid a = (r1, advance a k1)"
    "update_connections config tag cid eid b = (r1, advance b k1)" by blast
  show ?thesis
  proof (cases r1)
    case (Inl e)
    with u show ?thesis
      by (intro exI[of _ "Inl e"] exI[of _ k1]) (simp add: update_config_ids_def)
  next
    case (Inr v)
    obtain config1 km where v: "v = (config1, km)" by (cases v) auto
    from update_pipelines_cong[OF same_rand_advance[OF assms, of k1], of config1 tag km]
    obtain r k where
      "update_pipelines config1 tag km (advance a k1) = (r, advance (advance a k1) k)"
      "update_pipelines config1 tag km (advance b k1) = (r, advance (advance b k1) k)" by blast
    with u Inr v show ?thesis
      by (intro exI[of _ r] exI[of _ "k1 + k"]) (simp add: update_config_ids_def)
  qed
qed




lemma secrets_loop_dry:
  "secrets_loop True cid eid secs out w =
     (fold (\<lambda>kv out. AList.update (fst kv) (snd kv) out) secs out, w)"
  by (induction secs arbitrary: out) auto

lemma secrets_loop_live:
  "secrets_loop False cid eid secs out w = (out', w') \<Longrightarrow>
   out' = out \<and> w' = w\<lparr>ssm_calls := ssm_calls w'\<rparr>
   \<and> (\<exists>new. ssm_calls w' = ssm_calls w @ new
          \<and> map call_sig new = map (\<lambda>kv. (secret_path cid eid (fst kv), Raw (snd kv), PSecureString)) secs)"
proof (induction secs arbitrary: w)
  case Nil
  then show ?case by auto
next
  case (Cons x secs)
  obtain k v where x: "x = (k, v)" by (cases x) auto
  let ?c = "\<lparr>param_name = secret_path cid eid k, param_value = Raw v,
             param_type = PSecureString, param_ok = ssm_ok w (length (ssm_calls w))\<rparr>"
  let ?w1 = "w\<lparr>ssm_calls := ssm_calls w @ [?c]\<rparr>"
  from Cons.prems x have "secrets_loop False cid eid secs out ?w1 = (out', w')"
    by (simp add: create_ssm_parameter_def Let_def)
  from Cons.IH[OF this] obtain new where
    n: "out' = out" "w' = ?w1\<lparr>ssm_calls := ssm_calls w'\<rparr>"
    "ssm_calls w' = ssm_calls ?w1 @ new"
    "map call_sig new = map (\<lambda>kv. (secret_path cid eid (fst kv), Raw (snd kv), PSecureString)) secs"
    by blast
  from n(1,2) have "out' = out \<and> w' = w\<lparr>ssm_calls := ssm_calls w'\<rparr>" by simp
  moreover from n(3,4) x have "ssm_calls w' = ssm_calls w @ (?c # new)
      \<and> map call_sig (?c # new) =
          map (\<lambda>kv. (secret_path cid eid (fst kv), Raw (snd kv), PSecureString)) (x # secs)"
    by (simp add: call_sig_def)
  ultimately show ?case by blast
qed

lemma deploy_secrets_live:
  assumes "deploy_secrets False od cid eid key es w = (res, w')"
  shows "w' = w\<lparr>ssm_calls := ssm_calls w'\<rparr>"
    and "res = (if bad_secrets es then Inl AttributeError else Inr ())"
    and "\<exists>new. ssm_calls w' = ssm_calls w @ new
          \<and> map call_sig new =
              map (\<lambda>kv. (secret_path cid eid (fst kv), Raw (snd kv), PSecureString)) (secret_items es)"
proof -
  show "w' = w\<lparr>ssm_calls := ssm_calls w'\<rparr>"
    using assms secrets_loop_live[of cid eid _ "[]" w]
    by (auto simp: deploy_secrets_def split: option.splits if_splits json.splits prod.splits)
  show "res = (if bad_secrets es then Inl AttributeError else Inr ())"
    using assms
    by (auto simp: deploy_secrets_def bad_secrets_def
        split: option.splits if_splits json.splits prod.splits)
  show "\<exists>new. ssm_calls w' = ssm_calls w @ new
          \<and> map call_sig new =
              map (\<lambda>kv. (secret_path cid eid (fst kv), Raw (snd kv), PSecureString)) (secret_items es)"
  proof (cases "\<exists>secs. es = Some (JObj secs) \<and> secs \<noteq> []")
    case True
    then obtain secs where s: "es = Some (JObj secs)" "secs \<noteq> []" by blast
    obtain out' w1 where l: "secrets_loop False cid eid secs [] w = (out', w1)" by fastforce
    with assms s have "w' = w1" by (simp add: deploy_secrets_def)
    with secrets_loop_live[OF l] s show ?thesis by (simp add: secret_items_def)
  next
    case False
    with assms have "w' = w" "secret_items es = [] \<or> bad_secrets es"
      by (auto simp: deploy_secrets_def secret_items_def bad_secrets_def
          split: option.splits if_splits json.splits)
    moreover have "secret_items es = []" if "bad_secrets es"
      using that by (auto simp: secret_items_def bad_secrets_def split: option.splits json.splits)
    ultimately show ?thesis by auto
  qed
qed

lemma env_file_slash [simp]:
  "CHR ''/'' \<in> set (''environment_'' @ key @ ''_config.json'') \<longleftrightarrow> CHR ''/'' \<in> set key"
  "CHR ''/'' \<in> set (''environment_'' @ key @ ''_secrets.json'') \<longleftrightarrow> CHR ''/'' \<in> set key"
  by auto


lemma write_file_slash: "CHR ''/'' \<in> set name \<Longrightarrow> \<exists>e. write_file name v w = Inl e"
  by (simp add: write_file_def)


lemma store_environment_live:
  assumes "store_environment False od cid eid key cfg es w = (res, w')"
  shows "w' = w\<lparr>ssm_calls := ssm_calls w'\<rparr>
       \<and> (\<exists>c new. ssm_calls w' = ssm_calls w @ c # new
          \<and> call_sig c = (env_param_path cid eid, Dumps (JObj cfg), PString)
          \<and> param_ok c = ssm_ok w (length (ssm_calls w))
          \<and> map call_sig new =
              (if param_ok c
               then map (\<lambda>kv. (secret_path cid eid (fst kv), Raw (snd kv), PSecureString))
                      (secret_items es)
               else [])
          \<and> res = (if param_ok c \<and> bad_secrets es then Inl AttributeError else Inr ()))"
proof -
  let ?c = "\<lparr>param_name = env_param_path cid eid, param_value = Dumps (JObj cfg),
             param_type = PString, param_ok = ssm_ok w (length (ssm_calls w))\<rparr>"
  let ?w1 = "w\<lparr>ssm_calls := ssm_calls w @ [?c]\<rparr>"
  have c: "create_ssm_parameter (env_param_path cid eid) (Dumps (JObj cfg)) PString w =
             (ssm_ok w (length (ssm_calls w)), ?w1)"
    by (simp add: create_ssm_parameter_def Let_def)
  show ?thesis
  proof (cases "ssm_ok w (length (ssm_calls w))")
    case True
    with assms c have d: "deploy_secrets False od cid eid key es ?w1 = (res, w')"
      by (simp add: store_environment_def)
    from deploy_secrets_live(1)[OF d] have w: "w' = w\<lparr>ssm_calls := ssm_calls w'\<rparr>" by simp
    from deploy_secrets_live(3)[OF d] obtain new where
      "ssm_calls w' = ssm_calls ?w1 @ new"
      "map call_sig new =
         map (\<lambda>kv. (secret_path cid eid (fst kv), Raw (snd kv), PSecureString)) (secret_items es)"
      by blast
    with deploy_secrets_live(2)[OF d] True
    have "ssm_calls w' = ssm_calls w @ ?c # new
          \<and> call_sig ?c = (env_param_path cid eid, Dumps (JObj cfg), PString)
          \<and> param_ok ?c = ssm_ok w (length (ssm_calls w))
          \<and> map call_sig new =
              (if param_ok ?c
               then map (\<lambda>kv. (secret_path cid eid (fst kv), Raw (snd kv), PSecureString))
                      (secret_items es)
               else [])
          \<and> res = (if param_ok ?c \<and> bad_secrets es then Inl AttributeError else Inr ())"
      by (simp add: call_sig_def)
    with w show ?thesis by blast
  next
    case False
    with assms c have r: "res = Inr ()" "w' = ?w1"
      by (simp_all add: store_environment_def)
    then have w: "w' = w\<lparr>ssm_calls := ssm_calls w'\<rparr>" by simp
    from r False
    have "ssm_calls w' = ssm_calls w @ ?c # []
          \<and> call_sig ?c = (env_param_path cid eid, Dumps (JObj cfg), PString)
          \<and> param_ok ?c = ssm_ok w (length (ssm_calls w))
          \<and> map call_sig [] =
              (if param_ok ?c
               then map (\<lambda>kv. (secret_path cid eid (fst kv), Raw (snd kv), PSecureString))
                      (secret_items es)
               else [])
          \<and> res = (if param_ok ?c \<and> bad_secrets es then Inl AttributeError else Inr ())"
      by (simp add: call_sig_def)
    with w show ?thesis by blast
  qed
qed


lemma update_config_ids_other_keys:
  assumes "update_config_ids config tag cid eid w = (Inr (config', pids, pm), w')"
    and "k \<noteq> ''connections''" "k \<noteq> ''pipelines''"
  shows "map_of config' k = map_of config k"
proof -
  from assms(1) obtain config1 km w1 where
    uc: "update_connections config tag cid eid w = (Inr (config1, km), w1)"
    and up: "update_pipelines config1 tag km w1 = (Inr (config', pids, pm), w')"
    by (rule update_config_ids_Inr)
  from uc assms(2) have "map_of config1 k = map_of config k"
    by (auto simp: update_connections_def update_conv'
        split: option.splits if_splits json.splits prod.splits sum.splits)
  moreover from up assms(3) have "map_of config' k = map_of config1 k"
    by (auto simp: update_pipelines_def update_conv'
        split: option.splits if_splits json.splits prod.splits sum.splits)
  ultimately show ?thesis by simp
qed

lemma update_config_ids_world:
  "\<exists>r k. update_config_ids config tag cid eid w = (r, advance w k)"
  using update_config_ids_cong[OF same_rand_refl, of config tag cid eid w] by blast

lemma environment_step_unfold:
  assumes "map_of ec ''tag'' = Some t"
    and "env_id = nth_id w tag (py_str w t) 0"
    and "update_config_ids (AList.delete ''secret'' (AList.update ''id'' (JStr env_id) ec))
           tag cid env_id (advance w 1) = (r, w2)"
  shows "environment_step dry od tag cid key (JObj ec) acc w =
     (case r of
        Inl e \<Rightarrow> (Inl e, w2)
      | Inr (cfg, pids, pm) \<Rightarrow>
          (case store_environment dry od cid env_id key cfg (map_of ec ''secret'') w2 of
             (Inl e, w4) \<Rightarrow> (Inl e, w4)
           | (Inr u, w4) \<Rightarrow>
               (Inr (AList.update key env_id (fst acc), AList.update key pids (fst (snd acc)),
                     AList.update key pm (snd (snd acc))), w4)))"
  using assms
  by (simp add: environment_step_def generate_config_id_eq Let_def update_conv'
      split: sum.splits prod.splits)

lemma advance_repr [simp]: "repr_other (advance w a) = repr_other w"
  by (simp add: advance_def)

lemma store_environment_live_files:
  assumes "store_environment False od cid eid key cfg es w = (res, w')"
  shows "files w' = files w"
proof -
  from store_environment_live[OF assms] have "w' = w\<lparr>ssm_calls := ssm_calls w'\<rparr>" by blast
  from arg_cong[OF this, of files] show ?thesis by simp
qed

lemma store_environment_dry_mono:
  assumes "store_environment True od cid eid key cfg es w = (res, w')"
  shows "ssm_calls w' = ssm_calls w \<and> (\<exists>af. files w' = files w @ af)"
  using assms
  by (auto simp: store_environment_def dump_file_def deploy_secrets_def secrets_loop_dry
      write_file_def split: option.splits if_splits json.splits sum.splits)

lemma store_environment_dry_cases:
  assumes "store_environment True od cid eid key cfg (Some (JObj secs)) w = (res, w')"
  shows "(\<exists>e. res = Inl e) \<and> files w' = files w
       \<or> res = Inr () \<and>
         (od \<noteq> None \<longrightarrow>
            (\<exists>rest. files w' = files w @ (''environment_'' @ key @ ''_config.json'', JObj cfg) # rest))"
  using assms
  by (auto simp: store_environment_def dump_file_def deploy_secrets_def secrets_loop_dry
      write_file_def split: option.splits if_splits json.splits sum.splits)

lemma store_environment_mono:
  assumes "store_environment dry od cid eid key cfg es w = (res, w')"
  shows "(\<exists>ad. ssm_calls w' = ssm_calls w @ ad) \<and> (\<exists>af. files w' = files w @ af)"
proof (cases dry)
  case True
  with assms store_environment_dry_mono[of od cid eid key cfg es w res w'] show ?thesis by auto
next
  case False
  with assms have a: "store_environment False od cid eid key cfg es w = (res, w')" by simp
  from store_environment_live[OF a] store_environment_live_files[OF a] show ?thesis by auto
qed

lemma environment_step_mono:
  assumes "environment_step dry od tag cid key e acc w = (sres, w1)"
  shows "(\<exists>ad. ssm_calls w1 = ssm_calls w @ ad) \<and> (\<exists>af. files w1 = files w @ af)
       \<and> (\<forall>acc1 k. sres = Inr acc1 \<longrightarrow> k \<noteq> key \<longrightarrow> map_of (fst acc1) k = map_of (fst acc) k)"
proof (cases "\<exists>ec t. e = JObj ec \<and> map_of ec ''tag'' = Some t")
  case False
  with assms have "w1 = w" "\<exists>err. sres = Inl err"
    by (auto simp: environment_step_def split: json.splits option.splits)
  then show ?thesis by auto
next
  case True
  then obtain ec t where e: "e = JObj ec" and t: "map_of ec ''tag'' = Some t" by blast
  let ?id = "nth_id w tag (py_str w t) 0"
  from update_config_ids_world[of "AList.delete ''secret'' (AList.update ''id'' (JStr ?id) ec)"
      tag cid ?id "advance w 1"]
  obtain r k where
    u: "update_config_ids (AList.delete ''secret'' (AList.update ''id'' (JStr ?id) ec))
          tag cid ?id (advance w 1) = (r, advance (advance w 1) k)" by blast
  note unf = environment_step_unfold[OF t refl u, of dry od key acc]
  show ?thesis
  proof (cases r)
    case (Inl err)
    with assms e unf have "w1 = advance (advance w 1) k" "sres = Inl err" by auto
    then show ?thesis by simp
  next
    case (Inr v)
    obtain cfg pids pm where v: "v = (cfg, pids, pm)" by (cases v) auto
    obtain sr w4 where st:
      "store_environment dry od cid ?id key cfg (map_of ec ''secret'') (advance (advance w 1) k)
         = (sr, w4)" by fastforce
    from store_environment_mono[OF st]
    have m: "(\<exists>ad. ssm_calls w4 = ssm_calls w @ ad) \<and> (\<exists>af. files w4 = files w @ af)" by simp
    from assms e unf Inr v st have "w1 = w4"
      "\<forall>acc1. sres = Inr acc1 \<longrightarrow> fst acc1 = AList.update key ?id (fst acc)"
      by (cases sr; auto)+
    with m show ?thesis by (auto simp: update_conv')
  qed
qed

lemma environments_loop_mono:
  assumes "environments_loop dry od tag cid items acc w = (lres, w')"
  shows "(\<exists>ad. ssm_calls w' = ssm_calls w @ ad) \<and> (\<exists>af. files w' = files w @ af)
       \<and> (\<forall>acc' k. lres = Inr acc' \<longrightarrow> k \<notin> fst ` set items \<longrightarrow>
             map_of (fst acc') k = map_of (fst acc) k)"
  using assms
proof (induction items arbitrary: acc w)
  case Nil
  then show ?case by auto
next
  case (Cons x items)
  obtain k0 e0 where x: "x = (k0, e0)" by (cases x) auto
  obtain sres w1 where st: "environment_step dry od tag cid k0 e0 acc w = (sres, w1)"
    by fastforce
  note m = environment_step_mono[OF st]
  show ?case
  proof (cases sres)
    case (Inl err)
    with Cons.prems x st have "lres = Inl err" "w' = w1" by auto
    with m show ?thesis by auto
  next
    case (Inr acc1)
    with Cons.prems x st have lp: "environments_loop dry od tag cid items acc1 w1 = (lres, w')"
      by simp
    from Cons.IH[OF lp] m Inr x show ?thesis by auto
  qed
qed

lemma environments_loop_append:
  "environments_loop dry od tag cid (xs @ ys) acc w =
     (case environments_loop dry od tag cid xs acc w of
        (Inl e, w1) \<Rightarrow> (Inl e, w1)
      | (Inr acc1, w1) \<Rightarrow> environments_loop dry od tag cid ys acc1 w1)"
  by (induction xs arbitrary: acc w) (auto split: prod.splits sum.splits)

lemma environment_step_secret:
  assumes "map_of ec ''secret'' = Some (JObj secs)"
    and "environment_step dry od tag cid key (JObj ec) acc w = (sres, w1)"
  shows "(\<exists>e. sres = Inl e) \<and> ssm_calls w1 = ssm_calls w \<and> files w1 = files w
       \<or> (\<exists>env_id stored acc1. sres = Inr acc1
            \<and> fst acc1 = AList.update key env_id (fst acc)
            \<and> map_of stored ''secret'' = None
            \<and> (\<not> dry \<longrightarrow>
                 (\<exists>c new. ssm_calls w1 = ssm_calls w @ c # new
                    \<and> call_sig c = (env_param_path cid env_id, Dumps (JObj stored), PString)
                    \<and> (param_ok c \<longrightarrow>
                         map call_sig new =
                         map (\<lambda>kv. (secret_path cid env_id (fst kv), Raw (snd kv), PSecureString))
                           secs)))
            \<and> (dry \<and> od \<noteq> None \<longrightarrow>
                 (\<exists>rest. files w1 =
                    files w @ (''environment_'' @ key @ ''_config.json'', JObj stored) # rest)))"
proof (cases "map_of ec ''tag''")
  case None
  with assms(2) have "sres = Inl KeyError" "w1 = w" by (auto simp: environment_step_def)
  then show ?thesis by simp
next
  case (Some t)
  let ?id = "nth_id w tag (py_str w t) 0"
  from update_config_ids_world[of "AList.delete ''secret'' (AList.update ''id'' (JStr ?id) ec)"
      tag cid ?id "advance w 1"]
  obtain r k where
    u: "update_config_ids (AList.delete ''secret'' (AList.update ''id'' (JStr ?id) ec))
          tag cid ?id (advance w 1) = (r, advance (advance w 1) k)" by blast
  note unf = environment_step_unfold[OF Some refl u, of dry od key acc]
  show ?thesis
  proof (cases r)
    case (Inl err)
    with assms(2) unf have "w1 = advance (advance w 1) k" "sres = Inl err" by auto
    then show ?thesis by simp
  next
    case (Inr v)
    obtain cfg pids pm where v: "v = (cfg, pids, pm)" by (cases v) auto
    have ns: "map_of cfg ''secret'' = None"
      using update_config_ids_other_keys[OF u[unfolded Inr v], of "''secret''"]
      by (simp add: delete_conv')
    obtain sr w4 where st:
      "store_environment dry od cid ?id key cfg (Some (JObj secs)) (advance (advance w 1) k)
         = (sr, w4)" by fastforce
    from assms unf Inr v st have w14: "w1 = w4"
      and sres: "sres = (case sr of Inl e \<Rightarrow> Inl e
                        | Inr u \<Rightarrow> Inr (AList.update key ?id (fst acc),
                                         AList.update key pids (fst (snd acc)),
                                         AList.update key pm (snd (snd acc))))"
      by (cases sr; simp)+
    show ?thesis
    proof (cases dry)
      case True
      with st have st': "store_environment True od cid ?id key cfg (Some (JObj secs))
          (advance (advance w 1) k) = (sr, w4)" by simp
      from store_environment_dry_mono[OF st'] have calls: "ssm_calls w4 = ssm_calls w" by simp
      from store_environment_dry_cases[OF st']
      show ?thesis
      proof (elim disjE conjE exE)
        fix e
        assume "sr = Inl e" "files w4 = files (advance (advance w 1) k)"
        with sres w14 calls show ?thesis by simp
      next
        assume a: "sr = Inr ()"
          "od \<noteq> None \<longrightarrow>
             (\<exists>rest. files w4 = files (advance (advance w 1) k) @
                (''environment_'' @ key @ ''_config.json'', JObj cfg) # rest)"
        with sres w14 ns True show ?thesis
          by (intro disjI2 exI[of _ ?id] exI[of _ cfg]) auto
      qed
    next
      case False
      with st have st': "store_environment False od cid ?id key cfg (Some (JObj secs))
          (advance (advance w 1) k) = (sr, w4)" by simp
      from store_environment_live[OF st'] obtain c new where
        l: "ssm_calls w4 = ssm_calls w @ c # new"
        "call_sig c = (env_param_path cid ?id, Dumps (JObj cfg), PString)"
        "map call_sig new =
           (if param_ok c
            then map (\<lambda>kv. (secret_path cid ?id (fst kv), Raw (snd kv), PSecureString))
                   (secret_items (Some (JObj secs)))
            else [])"
        "sr = (if param_ok c \<and> bad_secrets (Some (JObj secs)) then Inl AttributeError else Inr ())"
        by auto
      from l(4) have sr: "sr = Inr ()" by (simp add: bad_secrets_def)
      from l(3) have new: "param_ok c \<longrightarrow> map call_sig new =
          map (\<lambda>kv. (secret_path cid ?id (fst kv), Raw (snd kv), PSecureString)) secs"
        by (simp add: secret_items_def)
      from sr sres w14 ns False l(1,2) new show ?thesis
        by (intro disjI2 exI[of _ ?id] exI[of _ cfg]) auto
    qed
  qed
qed

lemma environments_loop_secret:
  assumes "environments_loop dry od tag cid before acc w = (Inr acc0, w0)"
    and "environments_loop dry od tag cid (before @ (key, JObj ec) # after) acc w = (lres, w')"
    and "map_of ec ''secret'' = Some (JObj secs)"
    and "key \<notin> fst ` set after"
  shows "(\<exists>e. lres = Inl e) \<and> ssm_calls w' = ssm_calls w0 \<and> files w' = files w0
       \<or> (\<exists>env_id stored.
             map_of stored ''secret'' = None
           \<and> (\<forall>acc'. lres = Inr acc' \<longrightarrow> map_of (fst acc') key = Some env_id)
           \<and> (\<not> dry \<longrightarrow>
                (\<exists>c new rest. ssm_calls w' = ssm_calls w0 @ c # new @ rest
                   \<and> call_sig c = (env_param_path cid env_id, Dumps (JObj stored), PString)
                   \<and> (param_ok c \<longrightarrow>
                        map call_sig new =
                        map (\<lambda>kv. (secret_path cid env_id (fst kv), Raw (snd kv), PSecureString))
                          secs)))
           \<and> (dry \<and> od \<noteq> None \<longrightarrow>
                (\<exists>rest. files w' =
                   files w0 @ (''environment_'' @ key @ ''_config.json'', JObj stored) # rest)))"
proof -
  obtain sres w1 where st: "environment_step dry od tag cid key (JObj ec) acc0 w0 = (sres, w1)"
    by fastforce
  from assms(1,2) st have rest:
    "(case sres of Inl e \<Rightarrow> (Inl e, w1)
      | Inr acc1 \<Rightarrow> environments_loop dry od tag cid after acc1 w1) = (lres, w')"
    by (simp add: environments_loop_append)
  from environment_step_secret[OF assms(3) st] show ?thesis
  proof (elim disjE conjE exE)
    fix e
    assume "sres = Inl e" "ssm_calls w1 = ssm_calls w0" "files w1 = files w0"
    with rest show ?thesis by auto
  next
    fix env_id stored acc1
    assume a: "sres = Inr acc1" "fst acc1 = AList.update key env_id (fst acc0)"
      "map_of stored ''secret'' = None"
      and live: "\<not> dry \<longrightarrow>
         (\<exists>c new. ssm_calls w1 = ssm_calls w0 @ c # new
            \<and> call_sig c = (env_param_path cid env_id, Dumps (JObj stored), PString)
            \<and> (param_ok c \<longrightarrow>
                 map call_sig new =
                 map (\<lambda>kv. (secret_path cid env_id (fst kv), Raw (snd kv), PSecureString)) secs))"
      and dryf: "dry \<and> od \<noteq> None \<longrightarrow>
         (\<exists>rest. files w1 =
            files w0 @ (''environment_'' @ key @ ''_config.json'', JObj stored) # rest)"
    from rest a(1) have lp: "environments_loop dry od tag cid after acc1 w1 = (lres, w')" by simp
    from environments_loop_mono[OF lp] obtain ad af where
      m: "ssm_calls w' = ssm_calls w1 @ ad" "files w' = files w1 @ af"
      "\<forall>acc' k. lres = Inr acc' \<longrightarrow> k \<notin> fst ` set after \<longrightarrow>
          map_of (fst acc') k = map_of (fst acc1) k" by blast
    have ids: "\<forall>acc'. lres = Inr acc' \<longrightarrow> map_of (fst acc') key = Some env_id"
      using m(3) assms(4) a(2) by (simp add: update_conv')
    have live': "\<not> dry \<longrightarrow>
         (\<exists>c new rest. ssm_calls w' = ssm_calls w0 @ c # new @ rest
            \<and> call_sig c = (env_param_path cid env_id, Dumps (JObj stored), PString)
            \<and> (param_ok c \<longrightarrow>
                 map call_sig new =
                 map (\<lambda>kv. (secret_path cid env_id (fst kv), Raw (snd kv), PSecureString)) secs))"
    proof
      assume "\<not> dry"
      with live obtain c new where
        c: "ssm_calls w1 = ssm_calls w0 @ c # new"
        "call_sig c = (env_param_path cid env_id, Dumps (JObj stored), PString)"
        "param_ok c \<longrightarrow>
           map call_sig new =
           map (\<lambda>kv. (secret_path cid env_id (fst kv), Raw (snd kv), PSecureString)) secs"
        by blast
      from c(1) m(1) have "ssm_calls w' = ssm_calls w0 @ c # new @ ad" by simp
      with c(2,3) show "\<exists>c new rest. ssm_calls w' = ssm_calls w0 @ c # new @ rest
            \<and> call_sig c = (env_param_path cid env_id, Dumps (JObj stored), PString)
            \<and> (param_ok c \<longrightarrow>
                 map call_sig new =
                 map (\<lambda>kv. (secret_path cid env_id (fst kv), Raw (snd kv), PSecureString)) secs)"
        by (intro exI[of _ c] exI[of _ new] exI[of _ ad]) simp
    qed
    have dry': "dry \<and> od \<noteq> None \<longrightarrow>
         (\<exists>rest. files w' =
            files w0 @ (''environment_'' @ key @ ''_config.json'', JObj stored) # rest)"
      using dryf m(2) by auto
    show ?thesis
      by (rule disjI2, rule exI[of _ env_id], rule exI[of _ stored], intro conjI, rule a(3),
          rule ids, rule live', rule dry')
  qed
qed

lemma create_client_config_loop:
  assumes "create_client_config inp0 region_name dry od w = (ConfigOk r0, w0)"
    and "environments_json inp0 = Json (JObj before)"
  obtains tag w2 acc0 where
    "environments_loop dry od tag (res_client_id r0) before ([], [], []) w2 = (Inr acc0, w0)"
    and "\<forall>inp envs res w'.
           dir_exists inp = dir_exists inp0 \<and> client_json inp = client_json inp0 \<and>
           environments_json inp = Json (JObj envs) \<and>
           create_client_config inp region_name dry od w = (res, w') \<longrightarrow>
           (\<exists>lres. environments_loop dry od tag (res_client_id r0) envs ([], [], []) w2 = (lres, w')
             \<and> (case lres of
                   Inl e \<Rightarrow> res = ConfigFailed (config_failure e)
                 | Inr acc \<Rightarrow> \<exists>r. res = ConfigOk r \<and> res_environment_ids r = fst acc
                               \<and> res_client_id r = res_client_id r0))"
proof -
  from assms obtain client_config where
    c: "dir_exists inp0" "client_json inp0 = Json client_config" "dry \<or> ssm_reachable w"
    and d: "deploy_client client_config (JObj before) region_name dry od w = (ConfigOk r0, w0)"
    by (auto simp: create_client_config_def split: if_splits json_file.splits)
  obtain client t where ct: "client_tag_of client_config = Inr (client, t)"
    using d by (cases "client_tag_of client_config") (auto simp: deploy_client_def)
  let ?cid = "nth_id w (py_str w t) ''cid'' 0"
  obtain sc where sc: "store_client dry od ?cid (AList.update ''id'' (JStr ?cid) client)
      (advance w 1) = sc" by simp
  from d ct sc obtain w2 where w2: "sc = Inr (True, w2)"
    by (cases sc) (auto simp: deploy_client_def generate_config_id_eq Let_def split: if_splits)
  obtain lr w3 where l:
    "environments_loop dry od (py_str w t) ?cid before ([], [], []) w2 = (lr, w3)" by fastforce
  from d ct sc w2 l obtain acc0 where r0: "lr = Inr acc0" "w3 = w0" "res_client_id r0 = ?cid"
    by (cases lr) (auto simp: deploy_client_def generate_config_id_eq Let_def split: if_splits)
  have run: "\<exists>lres. environments_loop dry od (py_str w t) (res_client_id r0) envs ([], [], []) w2
                 = (lres, w')
             \<and> (case lres of
                   Inl e \<Rightarrow> res = ConfigFailed (config_failure e)
                 | Inr acc \<Rightarrow> \<exists>r. res = ConfigOk r \<and> res_environment_ids r = fst acc
                               \<and> res_client_id r = res_client_id r0)"
    if "dir_exists inp = dir_exists inp0" "client_json inp = client_json inp0"
      "environments_json inp = Json (JObj envs)"
      "create_client_config inp region_name dry od w = (res, w')" for inp envs res w'
  proof -
    from that c have dd:
      "deploy_client client_config (JObj envs) region_name dry od w = (res, w')"
      by (auto simp: create_client_config_def split: if_splits)
    obtain lres w4 where l4:
      "environments_loop dry od (py_str w t) ?cid envs ([], [], []) w2 = (lres, w4)"
      by fastforce
    from dd ct sc w2 l4 have "w4 = w'"
      "case lres of
         Inl e \<Rightarrow> res = ConfigFailed (config_failure e)
       | Inr acc \<Rightarrow> \<exists>r. res = ConfigOk r \<and> res_environment_ids r = fst acc
                     \<and> res_client_id r = ?cid"
      by (cases lres; auto simp: deploy_client_def generate_config_id_eq Let_def)+
    with l4 r0(3) show ?thesis by (cases lres) auto
  qed
  from l r0 have pre: "environments_loop dry od (py_str w t) (res_client_id r0) before
      ([], [], []) w2 = (Inr acc0, w0)" by simp
  show ?thesis
  proof (rule that[OF pre], intro allI impI, elim conjE)
    fix inp envs res w'
    assume "dir_exists inp = dir_exists inp0" "client_json inp = client_json inp0"
      "environments_json inp = Json (JObj envs)"
      "create_client_config inp region_name dry od w = (res, w')"
    then show "\<exists>lres. environments_loop dry od (py_str w t) (res_client_id r0) envs
                  ([], [], []) w2 = (lres, w')
             \<and> (case lres of
                   Inl e \<Rightarrow> res = ConfigFailed (config_failure e)
                 | Inr acc \<Rightarrow> \<exists>r. res = ConfigOk r \<and> res_environment_ids r = fst acc
                               \<and> res_client_id r = res_client_id r0)"
      by (rule run)
  qed
qed

text \<open>
  C9, as amended. Take an environment of \<^verbatim>\<open>environments.json\<close> whose config holds a secret
  mapping, in a run of \<^verbatim>\<open>create_client_config\<close> that reaches it: the run on the
  environments before it alone succeeds, with the client identifier \<open>res_client_id r0\<close> and
  leaving the world \<open>w0\<close>. Then one of two things happens. Either the processing of this
  environment raises before anything of it is stored: the run fails and has written
  nothing since \<open>w0\<close>. Or its configuration is stored next (the parameter at the
  environment's config path in a live run, the file \<^verbatim>\<open>environment_{env_key}_config.json\<close> in
  a dry run with an output directory) and has no \<^verbatim>\<open>secret\<close> entry; in a live run in which
  that parameter write succeeded, the secrets of the mapping are submitted right after it,
  one by one and in their order, each as a \<^verbatim>\<open>SecureString\<close> at
  \<^verbatim>\<open>/spec/enrichment/clients/{client_id}/envs/{env_id}/secrets/{secret_name}\<close>; and a run
  that succeeds returns this \<open>env_id\<close> for the environment. What later environments do,
  an exception included, does not change this.
\<close>

theorem secrets_stored_apart:
  assumes "environments_json inp = Json (JObj (before @ (env_key, JObj env_config) # after))"
    and "distinct (map fst (before @ (env_key, JObj env_config) # after))"
    and "map_of env_config ''secret'' = Some (JObj secs)"
    and "create_client_config (inp\<lparr>environments_json := Json (JObj before)\<rparr>) region_name
           dry_run out_dir w = (ConfigOk r0, w0)"
    and "create_client_config inp region_name dry_run out_dir w = (res, w')"
  shows "(\<exists>f. res = ConfigFailed f) \<and> ssm_calls w' = ssm_calls w0 \<and> files w' = files w0
       \<or> (\<exists>env_id stored.
             map_of stored ''secret'' = None
           \<and> (\<forall>r. res = ConfigOk r \<longrightarrow>
                 map_of (res_environment_ids r) env_key = Some env_id
                 \<and> res_client_id r = res_client_id r0)
           \<and> (\<not> dry_run \<longrightarrow>
                (\<exists>c new rest. ssm_calls w' = ssm_calls w0 @ c # new @ rest
                   \<and> call_sig c = (env_param_path (res_client_id r0) env_id,
                                   Dumps (JObj stored), PString)
                   \<and> (param_ok c \<longrightarrow>
                        map call_sig new =
                        map (\<lambda>kv. (secret_path (res_client_id r0) env_id (fst kv), Raw (snd kv),
                                    PSecureString)) secs)))
           \<and> (dry_run \<and> out_dir \<noteq> None \<longrightarrow>
                (\<exists>rest. files w' =
                   files w0 @ (''environment_'' @ env_key @ ''_config.json'', JObj stored) # rest)))"
proof -
  let ?inp0 = "inp\<lparr>environments_json := Json (JObj before)\<rparr>"
  have e0: "environments_json ?inp0 = Json (JObj before)" by simp
  from assms(4) e0 obtain tag w2 acc0 where
    pre: "environments_loop dry_run out_dir tag (res_client_id r0) before ([], [], []) w2
            = (Inr acc0, w0)"
    and run: "\<forall>inp' envs res w'.
           dir_exists inp' = dir_exists ?inp0 \<and> client_json inp' = client_json ?inp0 \<and>
           environments_json inp' = Json (JObj envs) \<and>
           create_client_config inp' region_name dry_run out_dir w = (res, w') \<longrightarrow>
           (\<exists>lres. environments_loop dry_run out_dir tag (res_client_id r0) envs ([], [], []) w2
                     = (lres, w')
             \<and> (case lres of
                   Inl e \<Rightarrow> res = ConfigFailed (config_failure e)
                 | Inr acc \<Rightarrow> \<exists>r. res = ConfigOk r \<and> res_environment_ids r = fst acc
                               \<and> res_client_id r = res_client_id r0))"
    by (rule create_client_config_loop) (rule that; assumption)
  have same: "dir_exists inp = dir_exists ?inp0" "client_json inp = client_json ?inp0" by simp_all
  from run[rule_format, OF conjI[OF same(1) conjI[OF same(2) conjI[OF assms(1) assms(5)]]]]
  obtain lres where
    l: "environments_loop dry_run out_dir tag (res_client_id r0)
          (before @ (env_key, JObj env_config) # after) ([], [], []) w2 = (lres, w')"
    and r: "case lres of
              Inl e \<Rightarrow> res = ConfigFailed (config_failure e)
            | Inr acc \<Rightarrow> \<exists>r. res = ConfigOk r \<and> res_environment_ids r = fst acc
                          \<and> res_client_id r = res_client_id r0"
    by auto
  from assms(2) have notin: "env_key \<notin> fst ` set after" by auto
  from environments_loop_secret[OF pre l assms(3) notin] show ?thesis
  proof (elim disjE conjE exE)
    fix e
    assume "lres = Inl e" "ssm_calls w' = ssm_calls w0" "files w' = files w0"
    with r show ?thesis by auto
  next
    fix env_id stored
    assume a: "map_of stored ''secret'' = None"
      "\<forall>acc'. lres = Inr acc' \<longrightarrow> map_of (fst acc') env_key = Some env_id"
      and live: "\<not> dry_run \<longrightarrow>
         (\<exists>c new rest. ssm_calls w' = ssm_calls w0 @ c # new @ rest
            \<and> call_sig c = (env_param_path (res_client_id r0) env_id, Dumps (JObj stored), PString)
            \<and> (param_ok c \<longrightarrow>
                 map call_sig new =
                 map (\<lambda>kv. (secret_path (res_client_id r0) env_id (fst kv), Raw (snd kv),
                             PSecureString)) secs))"
      and dryf: "dry_run \<and> out_dir \<noteq> None \<longrightarrow>
         (\<exists>rest. files w' =
            files w0 @ (''environment_'' @ env_key @ ''_config.json'', JObj stored) # rest)"
    have ids: "\<forall>r. res = ConfigOk r \<longrightarrow>
                 map_of (res_environment_ids r) env_key = Some env_id
                 \<and> res_client_id r = res_client_id r0"
      using r a(2) by (cases lres) auto
    show ?thesis
      by (rule disjI2, rule exI[of _ env_id], rule exI[of _ stored], intro conjI, rule a(1),
          rule ids, rule live, rule dryf)
  qed
qed

text \<open>
  C9 as stated fails when the write of the environment parameter fails: the \<^verbatim>\<open>continue\<close>
  skips the secrets, so the secret \<^verbatim>\<open>db\<close> of the environment is never submitted.
\<close>

theorem failed_environment_write_skips_secrets:
  "map param_type (ssm_calls (snd (create_client_config example_dir ''us-east-1'' False None
                                     failing_world))) = [PString, PString]
   \<and> map param_ok (ssm_calls (snd (create_client_config example_dir ''us-east-1'' False None
                                      failing_world))) = [True, False]"
  by (intro conjI; code_simp)

lemma broken_later_prefix:
  "config_success (fst (create_client_config
     (broken_later_dir\<lparr>environments_json := Json (JObj [])\<rparr>) ''us-east-1'' False None
     example_world))
   \<and> length (ssm_calls (snd (create_client_config
        (broken_later_dir\<lparr>environments_json := Json (JObj [])\<rparr>) ''us-east-1'' False None
        example_world))) = 1"
  by (intro conjI; code_simp)

lemma broken_later_run:
  "fst (create_client_config broken_later_dir ''us-east-1'' False None example_world) =
     ConfigFailed (DeploymentError KeyError)
   \<and> map param_ok (ssm_calls (snd (create_client_config broken_later_dir ''us-east-1'' False None
                                      example_world))) = [True, True, True]"
  by (intro conjI; code_simp)

theorem secrets_stored_apart_witness:
  "\<exists>r0 w0 w'.
     create_client_config (broken_later_dir\<lparr>environments_json := Json (JObj [])\<rparr>)
       ''us-east-1'' False None example_world = (ConfigOk r0, w0)
   \<and> create_client_config broken_later_dir ''us-east-1'' False None example_world =
       (ConfigFailed (DeploymentError KeyError), w')
   \<and> (\<exists>env_id stored c new rest.
         map_of stored ''secret'' = None
       \<and> ssm_calls w' = ssm_calls w0 @ c # new @ rest
       \<and> call_sig c = (env_param_path (res_client_id r0) env_id, Dumps (JObj stored), PString)
       \<and> map call_sig new =
           [(secret_path (res_client_id r0) env_id ''db'', Raw (JStr ''pw''), PSecureString)])"
proof -
  let ?env = "[(''tag'', JStr ''prod''), (''secret'', JObj [(''db'', JStr ''pw'')]),
               (''pipelines'', JObj [(''p1'', JObj [])])]"
  obtain r0 w0 where pre:
    "create_client_config (broken_later_dir\<lparr>environments_json := Json (JObj [])\<rparr>)
       ''us-east-1'' False None example_world = (ConfigOk r0, w0)"
    using broken_later_prefix
    by (cases "create_client_config (broken_later_dir\<lparr>environments_json := Json (JObj [])\<rparr>)
                 ''us-east-1'' False None example_world";
        cases "fst (create_client_config (broken_later_dir\<lparr>environments_json := Json (JObj [])\<rparr>)
                 ''us-east-1'' False None example_world)") auto
  obtain w' where run:
    "create_client_config broken_later_dir ''us-east-1'' False None example_world =
       (ConfigFailed (DeploymentError KeyError), w')"
    using broken_later_run
    by (cases "create_client_config broken_later_dir ''us-east-1'' False None example_world") auto
  from pre broken_later_prefix have l0: "length (ssm_calls w0) = 1" by simp
  from run broken_later_run have ok: "map param_ok (ssm_calls w') = [True, True, True]" by simp
  have l3: "length (ssm_calls w') = 3" using arg_cong[OF ok, of length] by simp
  have f: "environments_json broken_later_dir =
      Json (JObj ([] @ (''prod'', JObj ?env) # [(''broken'', JObj [])]))"
    by (simp add: broken_later_dir_def)
  have d: "distinct (map fst ([] @ (''prod'', JObj ?env) # [(''broken'', JObj [])]))" by simp
  have s: "map_of ?env ''secret'' = Some (JObj [(''db'', JStr ''pw'')])" by simp
  from secrets_stored_apart [OF f d s pre run]
  have "(\<exists>env_id stored.
             map_of stored ''secret'' = None
           \<and> (\<exists>c new rest. ssm_calls w' = ssm_calls w0 @ c # new @ rest
                   \<and> call_sig c = (env_param_path (res_client_id r0) env_id,
                                   Dumps (JObj stored), PString)
                   \<and> (param_ok c \<longrightarrow>
                        map call_sig new =
                        map (\<lambda>kv. (secret_path (res_client_id r0) env_id (fst kv), Raw (snd kv),
                                    PSecureString)) [(''db'', JStr ''pw'')])))"
  proof (elim disjE conjE exE)
    assume "ssm_calls w' = ssm_calls w0"
    with l0 l3 have False by simp
    then show ?thesis ..
  next
    fix env_id stored
    assume "map_of stored ''secret'' = None"
      "\<not> False \<longrightarrow>
         (\<exists>c new rest. ssm_calls w' = ssm_calls w0 @ c # new @ rest
            \<and> call_sig c = (env_param_path (res_client_id r0) env_id, Dumps (JObj stored), PString)
            \<and> (param_ok c \<longrightarrow>
                 map call_sig new =
                 map (\<lambda>kv. (secret_path (res_client_id r0) env_id (fst kv), Raw (snd kv),
                             PSecureString)) [(''db'', JStr ''pw'')]))"
    then show ?thesis by blast
  qed
  then obtain env_id stored c new rest where
    a: "map_of stored ''secret'' = None" "ssm_calls w' = ssm_calls w0 @ c # new @ rest"
    "call_sig c = (env_param_path (res_client_id r0) env_id, Dumps (JObj stored), PString)"
    "param_ok c \<longrightarrow>
       map call_sig new =
       map (\<lambda>kv. (secret_path (res_client_id r0) env_id (fst kv), Raw (snd kv), PSecureString))
         [(''db'', JStr ''pw'')]"
    by blast
  have "\<forall>x\<in>set (map param_ok (ssm_calls w')). x" unfolding ok by simp
  then have "param_ok c" unfolding a(2) by simp
  with a(4) have n: "map call_sig new =
      [(secret_path (res_client_id r0) env_id ''db'', Raw (JStr ''pw''), PSecureString)]" by simp
  show ?thesis
    by (rule exI[of _ r0], rule exI[of _ w0], rule exI[of _ w'], intro conjI, rule pre, rule run,
        rule exI[of _ env_id], rule exI[of _ stored], rule exI[of _ c], rule exI[of _ new],
        rule exI[of _ rest], intro conjI, rule a(1), rule a(2), rule a(3), rule n)
qed

section \<open>Dry runs and live runs\<close>

lemma same_sources_refl [simp]: "same_sources a a"
  by (simp add: same_sources_def)







lemma repr_str_cong: "repr_other a = repr_other b \<Longrightarrow> repr_str a s = repr_str b s"
  by (simp add: repr_str_def)
















end
